theory Spec2Isabelle
  imports Complex_Main "HOL-Library.AList" "HOL-Library.Sublist"
begin

section \<open>JavaScript values used by the slip application\<close>

text \<open>
  The program is the React component of \<^verbatim>\<open>src/index.jsx\<close>. Its strings are modelled as
  \<^typ>\<open>string\<close>, the UTF-8 bytes of the JavaScript string: the Thai literals of the source
  are written out byte by byte. Substring search on well-formed UTF-8 agrees with
  substring search on the code units of the JavaScript string.
  A field that is \<^verbatim>\<open>undefined\<close> or \<^verbatim>\<open>null\<close> is \<^term>\<open>None\<close>.
\<close>

subsection \<open>Strings\<close>

text \<open>
  The lower-case form of a character below 128: the letters A to Z become a to z, every
  other character is left as it is. \<^verbatim>\<open>String.prototype.toLowerCase\<close> does this to each
  character of a string whose characters are all below 128.
\<close>

definition lower_char :: "char \<Rightarrow> char" where
  "lower_char c =
     (case map_of (zip ''ABCDEFGHIJKLMNOPQRSTUVWXYZ'' ''abcdefghijklmnopqrstuvwxyz'') c of
        Some l \<Rightarrow> l
      | None \<Rightarrow> c)"

text \<open>A byte below 128 is a character of its own; every byte of a longer sequence is above.\<close>

definition ascii :: "char \<Rightarrow> bool" where
  "ascii c = (\<not> digit7 c)"

text \<open>\<^verbatim>\<open>s.includes(q)\<close>: the search string is looked for at every position of \<open>s\<close>.\<close>

fun str_includes :: "string \<Rightarrow> string \<Rightarrow> bool" where
  "str_includes [] q = (q = [])"
| "str_includes (c # cs) q = (prefix q (c # cs) \<or> str_includes cs q)"

text \<open>
  The characters that \<^verbatim>\<open>String.prototype.trim\<close> removes, as UTF-8 sequences: the white
  space of ECMAScript (tab, vertical tab, form feed, U+FEFF and the space separators
  U+0020, U+00A0, U+1680, U+2000 to U+200A, U+202F, U+205F, U+3000) and its line
  terminators (line feed, carriage return, U+2028, U+2029).
\<close>

definition white_space :: "string list" where
  "white_space =
     [[CHR 0x09], [CHR 0x0A], [CHR 0x0B], [CHR 0x0C], [CHR 0x0D], [CHR 0x20],
      [CHR 0xC2, CHR 0xA0],
      [CHR 0xE1, CHR 0x9A, CHR 0x80],
      [CHR 0xE2, CHR 0x80, CHR 0x80], [CHR 0xE2, CHR 0x80, CHR 0x81],
      [CHR 0xE2, CHR 0x80, CHR 0x82], [CHR 0xE2, CHR 0x80, CHR 0x83],
      [CHR 0xE2, CHR 0x80, CHR 0x84], [CHR 0xE2, CHR 0x80, CHR 0x85],
      [CHR 0xE2, CHR 0x80, CHR 0x86], [CHR 0xE2, CHR 0x80, CHR 0x87],
      [CHR 0xE2, CHR 0x80, CHR 0x88], [CHR 0xE2, CHR 0x80, CHR 0x89],
      [CHR 0xE2, CHR 0x80, CHR 0x8A],
      [CHR 0xE2, CHR 0x80, CHR 0xA8], [CHR 0xE2, CHR 0x80, CHR 0xA9],
      [CHR 0xE2, CHR 0x80, CHR 0xAF],
      [CHR 0xE2, CHR 0x81, CHR 0x9F],
      [CHR 0xE3, CHR 0x80, CHR 0x80],
      [CHR 0xEF, CHR 0xBB, CHR 0xBF]]"

text \<open>
  Removing from the start of a string every sequence of the list \<open>ws\<close>, none of which
  is empty: the sequence found at the start is dropped, its first byte being \<open>c\<close>.
\<close>

fun strip_leading :: "string list \<Rightarrow> string \<Rightarrow> string" where
  "strip_leading ws [] = []"
| "strip_leading ws (c # cs) =
     (case find (\<lambda>w. prefix w (c # cs)) ws of
        None \<Rightarrow> c # cs
      | Some w \<Rightarrow> strip_leading ws (drop (length w - 1) cs))"

text \<open>
  \<^verbatim>\<open>String.prototype.trim\<close>: white space and line terminators are removed from the start
  and, reading the bytes backwards, from the end.
\<close>

definition trim :: "string \<Rightarrow> string" where
  "trim s = rev (strip_leading (map rev white_space) (rev (strip_leading white_space s)))"


text \<open>\<^verbatim>\<open>Array.prototype.join\<close> on an array of strings.\<close>

fun join :: "string \<Rightarrow> string list \<Rightarrow> string" where
  "join sep [] = []"
| "join sep [x] = x"
| "join sep (x # y # ys) = x @ sep @ join sep (y # ys)"

text \<open>
  \<^verbatim>\<open>x || ''\<close> on an optional string: \<^verbatim>\<open>undefined\<close>, \<^verbatim>\<open>null\<close> and the empty string all
  give the empty string.
\<close>

definition or_empty :: "string option \<Rightarrow> string" where
  "or_empty x = (case x of None \<Rightarrow> [] | Some s \<Rightarrow> s)"

text \<open>Truthiness of an optional string: it is present and not empty.\<close>

definition truthy :: "string option \<Rightarrow> bool" where
  "truthy x = (case x of None \<Rightarrow> False | Some s \<Rightarrow> s \<noteq> [])"

subsection \<open>Numbers\<close>

text \<open>
  A JavaScript number is modelled as \<^term>\<open>NaN\<close> or the exact decimal value read from the
  text. Rounding to a double is monotone and keeps zero, so the sign of a parsed amount
  is the sign of its exact value; overflow to Infinity is outside the model. Amounts are
  added up by the addition of the engine, a parameter of the aggregation that adds them.
\<close>

datatype jsnum = NaN | Num real

definition is_digit :: "char \<Rightarrow> bool" where
  "is_digit c = (c \<in> set ''0123456789'')"

definition digit_val :: "char \<Rightarrow> nat" where
  "digit_val c = of_char c - 48"

definition digits_val :: "string \<Rightarrow> nat" where
  "digits_val ds = foldl (\<lambda>a c. 10 * a + digit_val c) 0 ds"

text \<open>
  \<^verbatim>\<open>parseFloat\<close> on the strings that reach it at line 370, which hold only digits, the
  decimal point and the minus sign (so no white space, plus sign, exponent or
  \<^verbatim>\<open>Infinity\<close> can occur). The longest prefix that is a decimal literal is read: an
  optional minus sign, digits, and an optional point followed by digits, with a digit on
  at least one side of the point. With no such prefix the result is NaN.
\<close>

definition parseFloat :: "string \<Rightarrow> jsnum" where
  "parseFloat s =
     (let neg = (s \<noteq> [] \<and> hd s = CHR ''-'');
          r = (if neg then tl s else s);
          ip = takeWhile is_digit r;
          r1 = dropWhile is_digit r;
          fp = (if r1 \<noteq> [] \<and> hd r1 = CHR ''.'' then takeWhile is_digit (tl r1) else []);
          mag = real (digits_val ip) + real (digits_val fp) / 10 ^ length fp
      in if ip = [] \<and> fp = [] then NaN
         else Num (if neg then - mag else mag))"

text \<open>The characters that \<^verbatim>\<open>replace(/[^0-9.-]+/g, "")\<close> keeps.\<close>

definition amount_chars :: "char set" where
  "amount_chars = set ''0123456789.-''"

definition strip_amount :: "string \<Rightarrow> string" where
  "strip_amount s = filter (\<lambda>c. c \<in> amount_chars) s"

text \<open>
  Line 370:
  \<^verbatim>\<open>parseFloat(parsedJson.amount?.replace(/[^0-9.-]+/g,"") || '0')\<close>.
  A missing amount and an amount with nothing left after the replacement are parsed
  as \<^verbatim>\<open>'0'\<close>.
\<close>

definition parseAmount :: "string option \<Rightarrow> jsnum" where
  "parseAmount amount =
     (let stripped = map_option strip_amount amount
      in parseFloat (if truthy stripped then or_empty stripped else ''0''))"

text \<open>\<^verbatim>\<open>x || 0\<close> on an optional number: \<^verbatim>\<open>undefined\<close>, NaN and zero all give zero.\<close>

definition or_zero :: "jsnum option \<Rightarrow> real" where
  "or_zero x = (case x of Some (Num r) \<Rightarrow> r | _ \<Rightarrow> 0)"

section \<open>Data model\<close>

text \<open>
  The object the extraction returns (the response schema of lines 329 to 349: eleven
  string fields), with the \<^verbatim>\<open>parsedAmount\<close> that line 371 adds.
\<close>

record slip_data =
  senderName :: "string option"
  recipientName :: "string option"
  amount :: "string option"
  transactionDate :: "string option"
  transactionTime :: "string option"
  transactionId :: "string option"
  senderBankName :: "string option"
  senderBankAccountNumber :: "string option"
  recipientBankName :: "string option"
  recipientBankAccountNumber :: "string option"
  country :: "string option"
  parsedAmount :: "jsnum option"

text \<open>An element of the state \<^verbatim>\<open>extractedData\<close>: \<^verbatim>\<open>{ imageId, data }\<close>.\<close>

record extracted_item =
  imageId :: string
  data :: "slip_data option"

text \<open>An element of the state \<^verbatim>\<open>selectedImages\<close>: \<^verbatim>\<open>{ id, dataUrl, timestamp }\<close>.\<close>

record image =
  id' :: string
  dataUrl :: string
  timestamp :: "int option"

text \<open>
  Reading a property of \<^verbatim>\<open>item.data\<close> throws a TypeError when \<^verbatim>\<open>data\<close> is null. A
  \<^verbatim>\<open>forEach\<close> that reads it for every item either sees every payload or throws.
\<close>

datatype js_error = TypeError

definition payloads :: "extracted_item list \<Rightarrow> js_error + slip_data list" where
  "payloads items =
     (case those (map data items) of None \<Rightarrow> Inl TypeError | Some ds \<Rightarrow> Inr ds)"

section \<open>The export document\<close>

text \<open>
  The Thai column labels of lines 219 to 221, as UTF-8 bytes: sender name, recipient
  name, amount, transaction date, transaction time, transaction reference, sender bank
  name, sender account number, recipient bank name, recipient account number, country.
\<close>

definition th_senderName :: string where
  "th_senderName =
     [CHR 0xE0, CHR 0xB8, CHR 0x8A, CHR 0xE0, CHR 0xB8, CHR 0xB7, CHR 0xE0, CHR 0xB9,
      CHR 0x88, CHR 0xE0, CHR 0xB8, CHR 0xAD, CHR 0xE0, CHR 0xB8, CHR 0x9C, CHR 0xE0,
      CHR 0xB8, CHR 0xB9, CHR 0xE0, CHR 0xB9, CHR 0x89, CHR 0xE0, CHR 0xB8, CHR 0xAA,
      CHR 0xE0, CHR 0xB9, CHR 0x88, CHR 0xE0, CHR 0xB8, CHR 0x87]"

definition th_recipientName :: string where
  "th_recipientName =
     [CHR 0xE0, CHR 0xB8, CHR 0x8A, CHR 0xE0, CHR 0xB8, CHR 0xB7, CHR 0xE0, CHR 0xB9,
      CHR 0x88, CHR 0xE0, CHR 0xB8, CHR 0xAD, CHR 0xE0, CHR 0xB8, CHR 0x9C, CHR 0xE0,
      CHR 0xB8, CHR 0xB9, CHR 0xE0, CHR 0xB9, CHR 0x89, CHR 0xE0, CHR 0xB8, CHR 0xA3,
      CHR 0xE0, CHR 0xB8, CHR 0xB1, CHR 0xE0, CHR 0xB8, CHR 0x9A]"

definition th_amount :: string where
  "th_amount =
     [CHR 0xE0, CHR 0xB8, CHR 0x88, CHR 0xE0, CHR 0xB8, CHR 0xB3, CHR 0xE0, CHR 0xB8,
      CHR 0x99, CHR 0xE0, CHR 0xB8, CHR 0xA7, CHR 0xE0, CHR 0xB8, CHR 0x99, CHR 0xE0,
      CHR 0xB9, CHR 0x80, CHR 0xE0, CHR 0xB8, CHR 0x87, CHR 0xE0, CHR 0xB8, CHR 0xB4,
      CHR 0xE0, CHR 0xB8, CHR 0x99]"

definition th_transactionDate :: string where
  "th_transactionDate =
     [CHR 0xE0, CHR 0xB8, CHR 0xA7, CHR 0xE0, CHR 0xB8, CHR 0xB1, CHR 0xE0, CHR 0xB8,
      CHR 0x99, CHR 0xE0, CHR 0xB8, CHR 0x97, CHR 0xE0, CHR 0xB8, CHR 0xB5, CHR 0xE0,
      CHR 0xB9, CHR 0x88, CHR 0xE0, CHR 0xB8, CHR 0x97, CHR 0xE0, CHR 0xB8, CHR 0xB3,
      CHR 0xE0, CHR 0xB8, CHR 0xA3, CHR 0xE0, CHR 0xB8, CHR 0xB2, CHR 0xE0, CHR 0xB8,
      CHR 0xA2, CHR 0xE0, CHR 0xB8, CHR 0x81, CHR 0xE0, CHR 0xB8, CHR 0xB2, CHR 0xE0,
      CHR 0xB8, CHR 0xA3]"

definition th_transactionTime :: string where
  "th_transactionTime =
     [CHR 0xE0, CHR 0xB9, CHR 0x80, CHR 0xE0, CHR 0xB8, CHR 0xA7, CHR 0xE0, CHR 0xB8,
      CHR 0xA5, CHR 0xE0, CHR 0xB8, CHR 0xB2, CHR 0xE0, CHR 0xB8, CHR 0x97, CHR 0xE0,
      CHR 0xB8, CHR 0xB3, CHR 0xE0, CHR 0xB8, CHR 0xA3, CHR 0xE0, CHR 0xB8, CHR 0xB2,
      CHR 0xE0, CHR 0xB8, CHR 0xA2, CHR 0xE0, CHR 0xB8, CHR 0x81, CHR 0xE0, CHR 0xB8,
      CHR 0xB2, CHR 0xE0, CHR 0xB8, CHR 0xA3]"

definition th_transactionId :: string where
  "th_transactionId =
     [CHR 0xE0, CHR 0xB8, CHR 0xA3, CHR 0xE0, CHR 0xB8, CHR 0xAB, CHR 0xE0, CHR 0xB8,
      CHR 0xB1, CHR 0xE0, CHR 0xB8, CHR 0xAA, CHR 0xE0, CHR 0xB8, CHR 0xAD, CHR 0xE0,
      CHR 0xB9, CHR 0x89, CHR 0xE0, CHR 0xB8, CHR 0xB2, CHR 0xE0, CHR 0xB8, CHR 0x87,
      CHR 0xE0, CHR 0xB8, CHR 0xAD, CHR 0xE0, CHR 0xB8, CHR 0xB4, CHR 0xE0, CHR 0xB8,
      CHR 0x87, CHR 0xE0, CHR 0xB8, CHR 0x81, CHR 0xE0, CHR 0xB8, CHR 0xB2, CHR 0xE0,
      CHR 0xB8, CHR 0xA3, CHR 0xE0, CHR 0xB8, CHR 0x97, CHR 0xE0, CHR 0xB8, CHR 0xB3,
      CHR 0xE0, CHR 0xB8, CHR 0xA3, CHR 0xE0, CHR 0xB8, CHR 0xB2, CHR 0xE0, CHR 0xB8,
      CHR 0xA2, CHR 0xE0, CHR 0xB8, CHR 0x81, CHR 0xE0, CHR 0xB8, CHR 0xB2, CHR 0xE0,
      CHR 0xB8, CHR 0xA3]"

definition th_senderBankName :: string where
  "th_senderBankName =
     [CHR 0xE0, CHR 0xB8, CHR 0x8A, CHR 0xE0, CHR 0xB8, CHR 0xB7, CHR 0xE0, CHR 0xB9,
      CHR 0x88, CHR 0xE0, CHR 0xB8, CHR 0xAD, CHR 0xE0, CHR 0xB8, CHR 0x98, CHR 0xE0,
      CHR 0xB8, CHR 0x99, CHR 0xE0, CHR 0xB8, CHR 0xB2, CHR 0xE0, CHR 0xB8, CHR 0x84,
      CHR 0xE0, CHR 0xB8, CHR 0xB2, CHR 0xE0, CHR 0xB8, CHR 0xA3, CHR 0xE0, CHR 0xB8,
      CHR 0x95, CHR 0xE0, CHR 0xB9, CHR 0x89, CHR 0xE0, CHR 0xB8, CHR 0x99, CHR 0xE0,
      CHR 0xB8, CHR 0x97, CHR 0xE0, CHR 0xB8, CHR 0xB2, CHR 0xE0, CHR 0xB8, CHR 0x87]"

definition th_senderBankAccountNumber :: string where
  "th_senderBankAccountNumber =
     [CHR 0xE0, CHR 0xB9, CHR 0x80, CHR 0xE0, CHR 0xB8, CHR 0xA5, CHR 0xE0, CHR 0xB8,
      CHR 0x82, CHR 0xE0, CHR 0xB8, CHR 0x9A, CHR 0xE0, CHR 0xB8, CHR 0xB1, CHR 0xE0,
      CHR 0xB8, CHR 0x8D, CHR 0xE0, CHR 0xB8, CHR 0x8A, CHR 0xE0, CHR 0xB8, CHR 0xB5,
      CHR 0xE0, CHR 0xB8, CHR 0x95, CHR 0xE0, CHR 0xB9, CHR 0x89, CHR 0xE0, CHR 0xB8,
      CHR 0x99, CHR 0xE0, CHR 0xB8, CHR 0x97, CHR 0xE0, CHR 0xB8, CHR 0xB2, CHR 0xE0,
      CHR 0xB8, CHR 0x87]"

definition th_recipientBankName :: string where
  "th_recipientBankName =
     [CHR 0xE0, CHR 0xB8, CHR 0x8A, CHR 0xE0, CHR 0xB8, CHR 0xB7, CHR 0xE0, CHR 0xB9,
      CHR 0x88, CHR 0xE0, CHR 0xB8, CHR 0xAD, CHR 0xE0, CHR 0xB8, CHR 0x98, CHR 0xE0,
      CHR 0xB8, CHR 0x99, CHR 0xE0, CHR 0xB8, CHR 0xB2, CHR 0xE0, CHR 0xB8, CHR 0x84,
      CHR 0xE0, CHR 0xB8, CHR 0xB2, CHR 0xE0, CHR 0xB8, CHR 0xA3, CHR 0xE0, CHR 0xB8,
      CHR 0x9B, CHR 0xE0, CHR 0xB8, CHR 0xA5, CHR 0xE0, CHR 0xB8, CHR 0xB2, CHR 0xE0,
      CHR 0xB8, CHR 0xA2, CHR 0xE0, CHR 0xB8, CHR 0x97, CHR 0xE0, CHR 0xB8, CHR 0xB2,
      CHR 0xE0, CHR 0xB8, CHR 0x87]"

definition th_recipientBankAccountNumber :: string where
  "th_recipientBankAccountNumber =
     [CHR 0xE0, CHR 0xB9, CHR 0x80, CHR 0xE0, CHR 0xB8, CHR 0xA5, CHR 0xE0, CHR 0xB8,
      CHR 0x82, CHR 0xE0, CHR 0xB8, CHR 0x9A, CHR 0xE0, CHR 0xB8, CHR 0xB1, CHR 0xE0,
      CHR 0xB8, CHR 0x8D, CHR 0xE0, CHR 0xB8, CHR 0x8A, CHR 0xE0, CHR 0xB8, CHR 0xB5,
      CHR 0xE0, CHR 0xB8, CHR 0x9B, CHR 0xE0, CHR 0xB8, CHR 0xA5, CHR 0xE0, CHR 0xB8,
      CHR 0xB2, CHR 0xE0, CHR 0xB8, CHR 0xA2, CHR 0xE0, CHR 0xB8, CHR 0x97, CHR 0xE0,
      CHR 0xB8, CHR 0xB2, CHR 0xE0, CHR 0xB8, CHR 0x87]"

definition th_country :: string where
  "th_country =
     [CHR 0xE0, CHR 0xB8, CHR 0x9B, CHR 0xE0, CHR 0xB8, CHR 0xA3, CHR 0xE0, CHR 0xB8,
      CHR 0xB0, CHR 0xE0, CHR 0xB9, CHR 0x80, CHR 0xE0, CHR 0xB8, CHR 0x97, CHR 0xE0,
      CHR 0xB8, CHR 0xA8]"

definition headers :: "string list" where
  "headers =
     [''Image ID'', ''View Image URL'', th_senderName, th_recipientName, th_amount,
      th_transactionDate, th_transactionTime, th_transactionId, th_senderBankName,
      th_senderBankAccountNumber, th_recipientBankName, th_recipientBankAccountNumber,
      th_country]"

text \<open>
  The link of line 229. \<open>viewerUrlBase\<close> comes from the location of the page and
  \<open>appId\<close> from the global \<^verbatim>\<open>__app_id\<close>; both are parameters here.
\<close>

definition viewImageUrl :: "string \<Rightarrow> string \<Rightarrow> string \<Rightarrow> string \<Rightarrow> string" where
  "viewImageUrl viewerUrlBase appId userId imgId =
     viewerUrlBase @ ''?imageId='' @ imgId @ ''&appId='' @ appId @ ''&userId='' @ userId"

text \<open>The thirteen values pushed to \<^verbatim>\<open>row\<close> at lines 231 to 243.\<close>

definition row_values :: "string \<Rightarrow> string \<Rightarrow> string \<Rightarrow> string \<Rightarrow> slip_data \<Rightarrow> string list" where
  "row_values viewerUrlBase appId userId imgId d =
     [imgId,
      viewImageUrl viewerUrlBase appId userId imgId,
      or_empty (senderName d),
      or_empty (recipientName d),
      or_empty (amount d),
      or_empty (transactionDate d),
      or_empty (transactionTime d),
      or_empty (transactionId d),
      or_empty (senderBankName d),
      or_empty (senderBankAccountNumber d),
      or_empty (recipientBankName d),
      or_empty (recipientBankAccountNumber d),
      or_empty (country d)]"

text \<open>Line 244: \<^verbatim>\<open>`"${String(field).replace(/"/g, '""')}"`\<close>.\<close>

definition double_quotes :: "string \<Rightarrow> string" where
  "double_quotes s = concat (map (\<lambda>c. if c = CHR 0x22 then [CHR 0x22, CHR 0x22] else [c]) s)"

definition quote_field :: "string \<Rightarrow> string" where
  "quote_field field = [CHR 0x22] @ double_quotes field @ [CHR 0x22]"

text \<open>One pass of the \<^verbatim>\<open>forEach\<close> of lines 227 to 245: \<^term>\<open>None\<close> when it throws.\<close>

definition csv_row :: "string \<Rightarrow> string \<Rightarrow> string \<Rightarrow> extracted_item \<Rightarrow> string option" where
  "csv_row viewerUrlBase appId userId item =
     (case data item of
        None \<Rightarrow> None
      | Some d \<Rightarrow>
          Some (join '','' (map quote_field (row_values viewerUrlBase appId userId (imageId item) d))))"

definition generateCsv ::
    "string \<Rightarrow> string \<Rightarrow> string \<Rightarrow> extracted_item list \<Rightarrow> js_error + string" where
  "generateCsv viewerUrlBase appId userId items =
     (case those (map (csv_row viewerUrlBase appId userId) items) of
        None \<Rightarrow> Inl TypeError
      | Some csvRows \<Rightarrow> Inr (join [CHR 0x0A] (join '','' headers # csvRows)))"

subsection \<open>Reading a CSV document back\<close>




section \<open>The extraction batch\<close>

text \<open>
  What the call to the model gives for one image (lines 356 to 370), as the code tells
  the cases apart:
  \<^item> \<open>FetchError msg\<close>: \<^verbatim>\<open>fetch\<close> or \<^verbatim>\<open>response.json()\<close> rejects with message \<open>msg\<close>,
    caught at line 389;
  \<^item> \<open>NoCandidates\<close>: the body has no \<^verbatim>\<open>candidates[0].content.parts[0]\<close>, the branch
    of line 385;
  \<^item> \<open>Unparsable\<close>: \<^verbatim>\<open>JSON.parse\<close> of the text throws, or reading the amount of the
    parsed value throws, caught at line 380;
  \<^item> \<open>Parsed pj\<close>: the text is the JSON of the object \<open>pj\<close>.
\<close>

datatype ai_response = FetchError string | NoCandidates | Unparsable | Parsed slip_data

text \<open>
  The world outside the component: the answer of the model for an image,
  whether \<^verbatim>\<open>setDoc\<close> for an image id resolves (\<^term>\<open>True\<close>) or rejects, and the two
  strings of the viewer link. Within one batch the answer depends on the image only; two
  batches may run in two different worlds.
\<close>

record env =
  fetch :: "image \<Rightarrow> ai_response"
  setDoc :: "string \<Rightarrow> slip_data \<Rightarrow> bool"
  viewerUrlBase :: string
  appId :: string

text \<open>
  The messages given to \<^verbatim>\<open>setError\<close> (Thai text in the source): no image selected
  (line 266), Firebase not ready (line 270), the answer cannot be parsed (line 383), no
  valid data in the answer (line 387), processing failed with the message of the
  exception (line 391).
\<close>

datatype error_message =
    NoImageSelected
  | NotInitialized
  | CannotParseAnswer
  | NoValidAnswer
  | ProcessingFailed string

text \<open>
  The component state that the batch reads and writes, and what one run of the loop
  builds: the list \<^verbatim>\<open>updatedExtractedData\<close>, the last message given to \<^verbatim>\<open>setError\<close>, and
  the calls made to the model and to \<^verbatim>\<open>setDoc\<close>, in order.
\<close>

record app_state =
  selectedImages :: "image list"
  extractedData :: "extracted_item list"
  db :: bool
  userId :: "string option"
  loading :: bool
  error :: "error_message option"
  csvContentForPreview :: string
  showCsvPreview :: bool

record batch =
  updatedExtractedData :: "extracted_item list"
  batch_error :: "error_message option"
  ai_calls :: "image list"
  setDoc_calls :: "(string \<times> slip_data) list"

definition empty_batch :: batch where
  "empty_batch =
     \<lparr>updatedExtractedData = [], batch_error = None, ai_calls = [], setDoc_calls = []\<rparr>"

text \<open>Line 371: \<^verbatim>\<open>{ ...parsedJson, parsedAmount }\<close>.\<close>

definition with_parsedAmount :: "slip_data \<Rightarrow> slip_data" where
  "with_parsedAmount parsedJson = parsedJson\<lparr>parsedAmount := Some (parseAmount (amount parsedJson))\<rparr>"

text \<open>Lines 292 to 392: the \<^verbatim>\<open>try\<close> block for an image that is not skipped.\<close>

definition extract_image :: "env \<Rightarrow> batch \<Rightarrow> image \<Rightarrow> batch" where
  "extract_image e b imageObj =
     (let called = b\<lparr>ai_calls := ai_calls b @ [imageObj]\<rparr>
      in case fetch e imageObj of
           FetchError msg \<Rightarrow> called\<lparr>batch_error := Some (ProcessingFailed msg)\<rparr>
         | NoCandidates \<Rightarrow> called\<lparr>batch_error := Some NoValidAnswer\<rparr>
         | Unparsable \<Rightarrow> called\<lparr>batch_error := Some CannotParseAnswer\<rparr>
         | Parsed parsedJson \<Rightarrow>
             (let extracted = with_parsedAmount parsedJson;
                  written = called\<lparr>setDoc_calls := setDoc_calls called @ [(id' imageObj, extracted)]\<rparr>
              in if setDoc e (id' imageObj) extracted
                 then written\<lparr>updatedExtractedData :=
                        updatedExtractedData written @ [\<lparr>imageId = id' imageObj, data = Some extracted\<rparr>]\<rparr>
                 else written\<lparr>batch_error := Some CannotParseAnswer\<rparr>))"

text \<open>Lines 283 to 393: the body of the loop over \<^verbatim>\<open>selectedImages\<close>.\<close>

definition process_image :: "env \<Rightarrow> extracted_item list \<Rightarrow> batch \<Rightarrow> image \<Rightarrow> batch" where
  "process_image e existing b imageObj =
     (case find (\<lambda>item. imageId item = id' imageObj) existing of
        None \<Rightarrow> extract_image e b imageObj
      | Some existingExtracted \<Rightarrow>
          if data existingExtracted \<noteq> None
          then b\<lparr>updatedExtractedData := updatedExtractedData b @ [existingExtracted]\<rparr>
          else extract_image e b imageObj)"

definition process_images :: "env \<Rightarrow> extracted_item list \<Rightarrow> image list \<Rightarrow> batch" where
  "process_images e existing images = foldl (process_image e existing) empty_batch images"

text \<open>
  Lines 264 to 403. The two early returns come first; after the loop the state takes
  the new list and, when it is not empty, the export document. Were \<^verbatim>\<open>generateCsv\<close> to
  throw, \<^verbatim>\<open>setLoading(false)\<close> would not be reached.
\<close>

definition processSlipWithAI :: "env \<Rightarrow> app_state \<Rightarrow> app_state \<times> batch" where
  "processSlipWithAI e st =
     (if selectedImages st = [] then (st\<lparr>error := Some NoImageSelected\<rparr>, empty_batch)
      else if \<not> db st \<or> \<not> truthy (userId st) then (st\<lparr>error := Some NotInitialized\<rparr>, empty_batch)
      else
        let b = process_images e (extractedData st) (selectedImages st);
            st1 = st\<lparr>loading := True, error := batch_error b, csvContentForPreview := [],
                     showCsvPreview := False, extractedData := updatedExtractedData b\<rparr>
        in if updatedExtractedData b = [] then (st1\<lparr>loading := False\<rparr>, b)
           else
             case generateCsv (viewerUrlBase e) (appId e) (or_empty (userId st))
                    (updatedExtractedData b) of
               Inl _ \<Rightarrow> (st1, b)
             | Inr csv \<Rightarrow>
                 (st1\<lparr>csvContentForPreview := csv, showCsvPreview := True, loading := False\<rparr>, b))"

subsection \<open>Loading the stored documents\<close>

text \<open>
  A document of the collection \<^verbatim>\<open>slips\<close>. Ingestion (lines 147 to 152) writes it with
  \<^verbatim>\<open>extractedData: null\<close>; the batch later merges the extraction into it (line 375).
\<close>

record slip_doc =
  doc_id :: "string option"
  doc_dataUrl :: "string option"
  doc_timestamp :: "int option"
  doc_extractedData :: "slip_data option"

definition ts_or_zero :: "int option \<Rightarrow> int" where
  "ts_or_zero t = (case t of None \<Rightarrow> 0 | Some n \<Rightarrow> n)"

text \<open>
  Lines 81 to 102, the snapshot listener: it rebuilds both lists from the documents and
  sorts them by time stamp (\<^verbatim>\<open>Array.prototype.sort\<close> is stable).
\<close>

definition onSnapshot :: "slip_doc list \<Rightarrow> app_state \<Rightarrow> app_state" where
  "onSnapshot snapshot st =
     (let docs = filter (\<lambda>d. truthy (doc_id d) \<and> truthy (doc_dataUrl d)) snapshot;
          loadedImages =
            map (\<lambda>d. \<lparr>id' = or_empty (doc_id d), dataUrl = or_empty (doc_dataUrl d),
                      timestamp = doc_timestamp d\<rparr>) docs;
          loadedData =
            map (\<lambda>d. \<lparr>imageId = or_empty (doc_id d), data = doc_extractedData d\<rparr>)
              (filter (\<lambda>d. doc_extractedData d \<noteq> None) docs);
          sortedImages = sort_key (\<lambda>img. ts_or_zero (timestamp img)) loadedImages;
          sortedData =
            sort_key
              (\<lambda>item. case find (\<lambda>img. id' img = imageId item) sortedImages of
                         None \<Rightarrow> 0
                       | Some img \<Rightarrow> ts_or_zero (timestamp img))
              loadedData
      in st\<lparr>selectedImages := sortedImages, extractedData := sortedData\<rparr>)"

section \<open>Search and aggregation\<close>

subsection \<open>The JavaScript engine\<close>

text \<open>
  The counters of the two frequency maps below are written by \<^verbatim>\<open>(m[k] || 0) + 1\<close>. The
  value read is a number, or a function or a string that the object inherits, and adding
  1 to those gives a string: a counter is a number or a text.
\<close>

datatype counter = Count nat | Text string

record daily_freq =
  date :: string
  count :: counter

record bank_usage =
  name :: string
  value' :: counter

text \<open>
  What the program takes from the engine that runs it and that is not fixed here:

  \<^item> \<open>unicode_lower\<close>: \<^verbatim>\<open>String.prototype.toLowerCase\<close> on a string that holds a character
    above 127, which follows the case mappings of Unicode;
  \<^item> \<open>number_add\<close>: the addition of two numbers, which rounds the exact sum to a double;
  \<^item> \<open>function_text\<close>: the text that a built-in function of \<^verbatim>\<open>Object.prototype\<close>, named
    by its property name, converts to;
  \<^item> \<open>sort_dates\<close> and \<open>sort_banks\<close>: \<^verbatim>\<open>Array.prototype.sort\<close> with the comparators of
    lines 570 and 641 on an array in which some count is a text. The comparator reads a
    text as a number, mostly NaN, and the order for a comparator that is not consistent
    is left to the engine by ECMAScript;
  \<^item> \<open>inherited_bankName\<close>: the value of \<^verbatim>\<open>Object.prototype.bankName\<close> when an aggregation
    starts, empty when the property is missing. No engine defines this property; the
    loop of lines 579 to 597 sets it when an account number is \<^verbatim>\<open>__proto__\<close>, and it
    stays set for the aggregations and renders that follow.
\<close>

record engine =
  unicode_lower :: "string \<Rightarrow> string"
  number_add :: "real \<Rightarrow> real \<Rightarrow> real"
  function_text :: "string \<Rightarrow> string"
  sort_dates :: "daily_freq list \<Rightarrow> daily_freq list"
  sort_banks :: "bank_usage list \<Rightarrow> bank_usage list"
  inherited_bankName :: string

text \<open>\<^verbatim>\<open>String.prototype.toLowerCase\<close>.\<close>

definition toLowerCase :: "engine \<Rightarrow> string \<Rightarrow> string" where
  "toLowerCase js s = (if list_all ascii s then map lower_char s else unicode_lower js s)"

subsection \<open>The search filter\<close>




subsection \<open>Plain objects used as maps\<close>

text \<open>
  The three aggregations below collect their groups in a plain object. Its own
  properties are kept here in creation order; \<^term>\<open>map_of\<close> reads an own property and
  \<^term>\<open>AList.update\<close> writes one, in place when it exists and at the end when it is new.
  \<^verbatim>\<open>Object.keys\<close> lists first the keys that are array indices (the canonical decimal
  text of an integer below \<open>2\<^sup>3\<^sup>2 - 1\<close>) in ascending numeric order, then every other key
  in creation order.
\<close>

type_synonym 'v js_object = "(string \<times> 'v) list"

definition is_array_index :: "string \<Rightarrow> bool" where
  "is_array_index k =
     (k \<noteq> [] \<and> list_all is_digit k \<and> (hd k \<noteq> CHR ''0'' \<or> k = ''0'') \<and>
      digits_val k < 4294967295)"

text \<open>The order in which keys created in the order \<open>ks\<close> are listed.\<close>

definition key_order :: "string list \<Rightarrow> string list" where
  "key_order ks =
     sort_key digits_val (filter is_array_index ks) @ filter (\<lambda>k. \<not> is_array_index k) ks"

definition Object_keys :: "'v js_object \<Rightarrow> string list" where
  "Object_keys obj = key_order (map fst obj)"

text \<open>
  A plain object inherits from \<^verbatim>\<open>Object.prototype\<close>, so \<^verbatim>\<open>obj[k]\<close> on a key that is no own
  property reads what the prototype holds under that name: a built-in function for the
  eleven names below, the prototype itself for \<^verbatim>\<open>__proto__\<close>, and the bank name that an
  earlier loop has left under \<^verbatim>\<open>bankName\<close>. The same loop leaves NaN under \<^verbatim>\<open>count\<close> and
  \<^verbatim>\<open>totalAmount\<close>, which the tests of this program read like a missing property, as
  they read every other name.
\<close>

definition function_members :: "string list" where
  "function_members =
     [''constructor'', ''hasOwnProperty'', ''isPrototypeOf'', ''propertyIsEnumerable'',
      ''toLocaleString'', ''toString'', ''valueOf'', ''__defineGetter__'', ''__defineSetter__'',
      ''__lookupGetter__'', ''__lookupSetter__'']"

datatype inherited_value = Missing | NativeFunction | ThePrototype | InheritedText string

text \<open>
  What a key that is no own property reads, \<open>protoBankName\<close> being the value of
  \<^verbatim>\<open>Object.prototype.bankName\<close>, empty when it is missing.
\<close>

definition inherited :: "string \<Rightarrow> string \<Rightarrow> inherited_value" where
  "inherited protoBankName k =
     (if k = ''__proto__'' then ThePrototype
      else if k \<in> set function_members then NativeFunction
      else if k = ''bankName'' \<and> protoBankName \<noteq> [] then InheritedText protoBankName
      else Missing)"

text \<open>
  \<^verbatim>\<open>obj[k] = (obj[k] || 0) + 1\<close> on an object of counters. An own number is incremented;
  an own text that is not empty gets the character 1 appended. A key that is no own
  property starts at 1 when it reads nothing; when it reads a function or a string the
  sum is that text followed by 1, stored as an own property; and when it is
  \<^verbatim>\<open>__proto__\<close> the sum is a string, which the setter of \<^verbatim>\<open>__proto__\<close> ignores, so that no
  property is written.
\<close>

definition bump :: "engine \<Rightarrow> counter js_object \<Rightarrow> string \<Rightarrow> counter js_object" where
  "bump js obj k =
     (case map_of obj k of
        Some (Count n) \<Rightarrow> AList.update k (Count (n + 1)) obj
      | Some (Text s) \<Rightarrow> AList.update k (if s = [] then Count 1 else Text (s @ ''1'')) obj
      | None \<Rightarrow>
          (case inherited (inherited_bankName js) k of
             Missing \<Rightarrow> AList.update k (Count 1) obj
           | NativeFunction \<Rightarrow> AList.update k (Text (function_text js k @ ''1'')) obj
           | ThePrototype \<Rightarrow> obj
           | InheritedText s \<Rightarrow> AList.update k (Text (s @ ''1'')) obj))"

text \<open>
  \<^verbatim>\<open>obj[k]\<close> for a key \<open>k\<close> that \<^verbatim>\<open>Object.keys(obj)\<close> listed, which is an own property.
\<close>

definition counter_of :: "counter js_object \<Rightarrow> string \<Rightarrow> counter" where
  "counter_of obj k = (case map_of obj k of None \<Rightarrow> Count 0 | Some c \<Rightarrow> c)"

definition is_count :: "counter \<Rightarrow> bool" where
  "is_count c = (case c of Count n \<Rightarrow> True | Text s \<Rightarrow> False)"

definition count_val :: "counter \<Rightarrow> nat" where
  "count_val c = (case c of Count n \<Rightarrow> n | Text s \<Rightarrow> 0)"

text \<open>
  \<^verbatim>\<open>xs.sort((a, b) => b.n - a.n)\<close> on numbers \<open>n\<close>: a stable sort, largest \<open>n\<close> first.
\<close>

definition sort_desc :: "('a \<Rightarrow> nat) \<Rightarrow> 'a list \<Rightarrow> 'a list" where
  "sort_desc n xs = sort_key (\<lambda>x. - int (n x)) xs"

subsection \<open>Transactions per day\<close>

text \<open>Lines 558 to 563.\<close>

definition frequency_step :: "engine \<Rightarrow> counter js_object \<Rightarrow> slip_data \<Rightarrow> counter js_object" where
  "frequency_step js frequencyMap d =
     (if truthy (transactionDate d) then bump js frequencyMap (or_empty (transactionDate d))
      else frequencyMap)"

text \<open>
  Line 570. With numbers for all counts the sort is the stable sort above; an array of
  fewer than two elements is left as it is; otherwise the order is the engine's.
\<close>

definition sort_by_count :: "engine \<Rightarrow> daily_freq list \<Rightarrow> daily_freq list" where
  "sort_by_count js dataArray =
     (if list_all (\<lambda>e. is_count (count e)) dataArray
        then sort_desc (\<lambda>e. count_val (count e)) dataArray
      else if length dataArray < 2 then dataArray
      else sort_dates js dataArray)"

text \<open>Lines 556 to 573.\<close>

definition dailyFrequencyData :: "engine \<Rightarrow> extracted_item list \<Rightarrow> js_error + daily_freq list" where
  "dailyFrequencyData js items =
     (case payloads items of
        Inl err \<Rightarrow> Inl err
      | Inr ds \<Rightarrow>
          (let frequencyMap = foldl (frequency_step js) [] ds;
               dataArray =
                 map (\<lambda>k. \<lparr>date = k, count = counter_of frequencyMap k\<rparr>) (Object_keys frequencyMap)
           in Inr (sort_by_count js dataArray)))"

subsection \<open>Most frequent recipient accounts\<close>

record account_stats =
  stat_count :: nat
  stat_totalAmount :: real
  stat_bankName :: string

record top_account =
  accountNumber :: string
  transactionCount :: nat
  totalAmountTransferred :: real
  bankName :: string

text \<open>
  Lines 590 to 596 on the entry of an account: the count and the total are updated, and
  the bank name is set when the entry has none.
\<close>

definition add_transfer :: "engine \<Rightarrow> real \<Rightarrow> string \<Rightarrow> account_stats \<Rightarrow> account_stats" where
  "add_transfer js amt bank entry =
     (let counted = entry\<lparr>stat_count := stat_count entry + 1,
                          stat_totalAmount := number_add js (stat_totalAmount entry) amt\<rparr>
      in if stat_bankName counted = [] \<and> bank \<noteq> [] then counted\<lparr>stat_bankName := bank\<rparr>
         else counted)"

text \<open>
  The loop of lines 579 to 597 changes \<^verbatim>\<open>accountStatsMap\<close> and, for the account number
  \<^verbatim>\<open>__proto__\<close>, the prototype of all objects.
\<close>

record account_loop =
  stats_map :: "account_stats js_object"
  proto_bankName :: string

text \<open>
  One pass of the loop. For an account number that is an own property, or that reads
  nothing and gets a new entry, the entry is updated. An account number that names a
  built-in function passes the test of line 587 without an entry and lines 590 to 596
  write to that function: the map is unchanged. For \<^verbatim>\<open>__proto__\<close> they write to
  \<^verbatim>\<open>Object.prototype\<close>: its count and total become NaN and its bank name is set when it
  has none. For \<^verbatim>\<open>bankName\<close>, when the prototype holds a bank name, line 590 assigns to a
  property of a string, which throws a TypeError in the strict code of a module.
\<close>

definition account_step :: "engine \<Rightarrow> account_loop \<Rightarrow> slip_data \<Rightarrow> js_error + account_loop" where
  "account_step js st d =
     (if truthy (recipientBankAccountNumber d) then
        (let acc = or_empty (recipientBankAccountNumber d);
             amt = or_zero (parsedAmount d);
             bank = or_empty (recipientBankName d)
         in case map_of (stats_map st) acc of
              Some entry \<Rightarrow>
                Inr (st\<lparr>stats_map := AList.update acc (add_transfer js amt bank entry) (stats_map st)\<rparr>)
            | None \<Rightarrow>
                (case inherited (proto_bankName st) acc of
                   Missing \<Rightarrow>
                     Inr (st\<lparr>stats_map :=
                            AList.update acc
                              (add_transfer js amt bank
                                 \<lparr>stat_count = 0, stat_totalAmount = 0, stat_bankName = bank\<rparr>)
                              (stats_map st)\<rparr>)
                 | NativeFunction \<Rightarrow> Inr st
                 | ThePrototype \<Rightarrow>
                     Inr (if proto_bankName st = [] \<and> bank \<noteq> [] then st\<lparr>proto_bankName := bank\<rparr>
                          else st)
                 | InheritedText s \<Rightarrow> Inl TypeError))
      else Inr st)"

text \<open>The \<^verbatim>\<open>forEach\<close> of lines 579 to 597, which an exception leaves.\<close>

fun forEach_account :: "engine \<Rightarrow> account_loop \<Rightarrow> slip_data list \<Rightarrow> js_error + account_loop" where
  "forEach_account js st [] = Inr st"
| "forEach_account js st (d # ds) =
     (case account_step js st d of
        Inl err \<Rightarrow> Inl err
      | Inr st' \<Rightarrow> forEach_account js st' ds)"

text \<open>Lines 601 to 606: the entry for one account number; \<^verbatim>\<open>bankName || '-'\<close>.\<close>

definition account_entry :: "account_stats js_object \<Rightarrow> string \<Rightarrow> top_account" where
  "account_entry accountStatsMap k =
     (case map_of accountStatsMap k of
        None \<Rightarrow> \<lparr>accountNumber = k, transactionCount = 0, totalAmountTransferred = 0, bankName = ''-''\<rparr>
      | Some s \<Rightarrow>
          \<lparr>accountNumber = k, transactionCount = stat_count s,
           totalAmountTransferred = stat_totalAmount s,
           bankName = (if stat_bankName s = [] then ''-'' else stat_bankName s)\<rparr>)"

text \<open>
  Lines 576 to 611. The counts of the entries are numbers, so the sort of line 607 is the
  stable sort, largest count first; \<^verbatim>\<open>slice(0, 5)\<close> keeps the first five.
\<close>

definition topRecipientAccountsData ::
    "engine \<Rightarrow> extracted_item list \<Rightarrow> js_error + top_account list" where
  "topRecipientAccountsData js items =
     (case payloads items of
        Inl err \<Rightarrow> Inl err
      | Inr ds \<Rightarrow>
          (case forEach_account js \<lparr>stats_map = [], proto_bankName = inherited_bankName js\<rparr> ds of
             Inl err \<Rightarrow> Inl err
           | Inr st \<Rightarrow>
               (let accountStatsMap = stats_map st
                in Inr (take 5 (sort_desc transactionCount
                          (map (account_entry accountStatsMap) (Object_keys accountStatsMap)))))))"

subsection \<open>Bank usage\<close>

definition th_krungsri :: string where
  "th_krungsri =
     [CHR 0xE0, CHR 0xB8, CHR 0x81, CHR 0xE0, CHR 0xB8, CHR 0xA3, CHR 0xE0, CHR 0xB8,
      CHR 0xB8, CHR 0xE0, CHR 0xB8, CHR 0x87, CHR 0xE0, CHR 0xB8, CHR 0xA8, CHR 0xE0,
      CHR 0xB8, CHR 0xA3, CHR 0xE0, CHR 0xB8, CHR 0xB5]"

definition th_kasikorn_part :: string where
  "th_kasikorn_part =
     [CHR 0xE0, CHR 0xB8, CHR 0x81, CHR 0xE0, CHR 0xB8, CHR 0xAA, CHR 0xE0, CHR 0xB8,
      CHR 0xB4, CHR 0xE0, CHR 0xB8, CHR 0x81, CHR 0xE0, CHR 0xB8, CHR 0xA3]"

definition th_kasikornthai :: string where
  "th_kasikornthai =
     [CHR 0xE0, CHR 0xB8, CHR 0x81, CHR 0xE0, CHR 0xB8, CHR 0xAA, CHR 0xE0, CHR 0xB8,
      CHR 0xB4, CHR 0xE0, CHR 0xB8, CHR 0x81, CHR 0xE0, CHR 0xB8, CHR 0xA3, CHR 0xE0,
      CHR 0xB9, CHR 0x84, CHR 0xE0, CHR 0xB8, CHR 0x97, CHR 0xE0, CHR 0xB8, CHR 0xA2]"

definition th_thaipanich :: string where
  "th_thaipanich =
     [CHR 0xE0, CHR 0xB9, CHR 0x84, CHR 0xE0, CHR 0xB8, CHR 0x97, CHR 0xE0, CHR 0xB8,
      CHR 0xA2, CHR 0xE0, CHR 0xB8, CHR 0x9E, CHR 0xE0, CHR 0xB8, CHR 0xB2, CHR 0xE0,
      CHR 0xB8, CHR 0x93, CHR 0xE0, CHR 0xB8, CHR 0xB4, CHR 0xE0, CHR 0xB8, CHR 0x8A,
      CHR 0xE0, CHR 0xB8, CHR 0xA2, CHR 0xE0, CHR 0xB9, CHR 0x8C]"

text \<open>
  Lines 619 to 628: the bank name is trimmed, then replaced by a fixed Thai label when
  it names Krungsri, Kasikorn or SCB (Thai Panich); the first rule that matches wins.
\<close>

definition canonical_bank :: "engine \<Rightarrow> string \<Rightarrow> string" where
  "canonical_bank js recipientBank =
     (let bank = trim recipientBank
      in if str_includes (toLowerCase js bank) ''krungsri'' then th_krungsri
         else if str_includes bank th_kasikorn_part \<or> str_includes (toLowerCase js bank) ''kasikorn''
           then th_kasikornthai
         else if str_includes (toLowerCase js bank) ''scb'' \<or> str_includes bank th_thaipanich
           then th_thaipanich
         else bank)"

text \<open>Lines 617 to 633.\<close>

definition bank_step :: "engine \<Rightarrow> counter js_object \<Rightarrow> slip_data \<Rightarrow> counter js_object" where
  "bank_step js bankMap d =
     (if truthy (recipientBankName d)
        then bump js bankMap (canonical_bank js (or_empty (recipientBankName d)))
      else bankMap)"

text \<open>Line 641, as line 570.\<close>

definition sort_by_value :: "engine \<Rightarrow> bank_usage list \<Rightarrow> bank_usage list" where
  "sort_by_value js sortedBanks =
     (if list_all (\<lambda>e. is_count (value' e)) sortedBanks
        then sort_desc (\<lambda>e. count_val (value' e)) sortedBanks
      else if length sortedBanks < 2 then sortedBanks
      else sort_banks js sortedBanks)"

text \<open>Lines 614 to 644.\<close>

definition bankUsageData :: "engine \<Rightarrow> extracted_item list \<Rightarrow> js_error + bank_usage list" where
  "bankUsageData js items =
     (case payloads items of
        Inl err \<Rightarrow> Inl err
      | Inr ds \<Rightarrow>
          (let bankMap = foldl (bank_step js) [] ds
           in Inr (sort_by_value js
                     (map (\<lambda>k. \<lparr>name = k, value' = counter_of bankMap k\<rparr>) (Object_keys bankMap)))))"

section \<open>Vocabulary of the claims\<close>

subsection \<open>The batch, image by image\<close>

text \<open>
  An image has a prior result when the entry that \<^verbatim>\<open>find\<close> returns for its id (the first
  one) has a payload: the test of line 286.
\<close>

definition has_prior :: "extracted_item list \<Rightarrow> image \<Rightarrow> bool" where
  "has_prior existing imageObj =
     (case find (\<lambda>item. imageId item = id' imageObj) existing of
        None \<Rightarrow> False
      | Some existingExtracted \<Rightarrow> data existingExtracted \<noteq> None)"

text \<open>
  The failure of an image that is submitted: the message its failure gives to
  \<^verbatim>\<open>setError\<close>, or \<^term>\<open>None\<close> when the extraction is parsed and written.
\<close>

definition image_failure :: "env \<Rightarrow> image \<Rightarrow> error_message option" where
  "image_failure e imageObj =
     (case fetch e imageObj of
        FetchError msg \<Rightarrow> Some (ProcessingFailed msg)
      | NoCandidates \<Rightarrow> Some NoValidAnswer
      | Unparsable \<Rightarrow> Some CannotParseAnswer
      | Parsed parsedJson \<Rightarrow>
          if setDoc e (id' imageObj) (with_parsedAmount parsedJson) then None
          else Some CannotParseAnswer)"

text \<open>What one image adds to \<^verbatim>\<open>updatedExtractedData\<close>, and the \<^verbatim>\<open>setDoc\<close> calls it makes.\<close>

definition image_result :: "env \<Rightarrow> extracted_item list \<Rightarrow> image \<Rightarrow> extracted_item list" where
  "image_result e existing imageObj =
     (if has_prior existing imageObj
      then (case find (\<lambda>item. imageId item = id' imageObj) existing of
              None \<Rightarrow> [] | Some existingExtracted \<Rightarrow> [existingExtracted])
      else (case fetch e imageObj of
              Parsed parsedJson \<Rightarrow>
                if setDoc e (id' imageObj) (with_parsedAmount parsedJson)
                then [\<lparr>imageId = id' imageObj, data = Some (with_parsedAmount parsedJson)\<rparr>]
                else []
            | _ \<Rightarrow> []))"

definition image_writes :: "env \<Rightarrow> extracted_item list \<Rightarrow> image \<Rightarrow> (string \<times> slip_data) list" where
  "image_writes e existing imageObj =
     (if has_prior existing imageObj then []
      else (case fetch e imageObj of
              Parsed parsedJson \<Rightarrow> [(id' imageObj, with_parsedAmount parsedJson)]
            | _ \<Rightarrow> []))"

subsection \<open>Example inputs\<close>

text \<open>
  A payload with every field missing, an image with a given id, a state that passes the
  two early returns, and a world given by the answers of the model and of \<^verbatim>\<open>setDoc\<close>.
\<close>

definition no_fields :: slip_data where
  "no_fields =
     \<lparr>senderName = None, recipientName = None, amount = None, transactionDate = None,
      transactionTime = None, transactionId = None, senderBankName = None,
      senderBankAccountNumber = None, recipientBankName = None,
      recipientBankAccountNumber = None, country = None, parsedAmount = None\<rparr>"

definition example_image :: "string \<Rightarrow> image" where
  "example_image i = \<lparr>id' = i, dataUrl = ''data:image/png;base64,AAAA'', timestamp = None\<rparr>"

definition example_state :: "image list \<Rightarrow> extracted_item list \<Rightarrow> app_state" where
  "example_state images items =
     \<lparr>selectedImages = images, extractedData = items, db = True, userId = Some ''u1'',
      loading = False, error = None, csvContentForPreview = [], showCsvPreview = False\<rparr>"

definition example_env :: "(image \<Rightarrow> ai_response) \<Rightarrow> (string \<Rightarrow> slip_data \<Rightarrow> bool) \<Rightarrow> env" where
  "example_env f w = \<lparr>fetch = f, setDoc = w, viewerUrlBase = ''https://h/image_viewer.html'', appId = ''app''\<rparr>"

text \<open>A stored document with an id, an image, a time stamp and a payload or null.\<close>

definition example_doc :: "string \<Rightarrow> int \<Rightarrow> slip_data option \<Rightarrow> slip_doc" where
  "example_doc i t x =
     \<lparr>doc_id = Some i, doc_dataUrl = Some ''data:image/png;base64,AAAA'',
      doc_timestamp = Some t, doc_extractedData = x\<rparr>"

subsection \<open>The amount parser\<close>

text \<open>
  A text starts with a decimal number when it starts with a digit, or with a point that a
  digit follows.
\<close>

definition starts_decimal :: "string \<Rightarrow> bool" where
  "starts_decimal r =
     (case r of
        [] \<Rightarrow> False
      | c # cs \<Rightarrow>
          is_digit c \<or> (c = CHR ''.'' \<and> (case cs of [] \<Rightarrow> False | d # ds \<Rightarrow> is_digit d)))"

subsection \<open>Search\<close>


text \<open>
  Two characters are the same letter when they are equal or are the capital and the small
  form of one of the twenty-six letters. A string contains a query ignoring case when
  some part of it, starting anywhere, has the length of the query and agrees with it
  letter by letter.
\<close>

definition letter_forms :: "(char \<times> char) list" where
  "letter_forms =
     [(CHR ''A'', CHR ''a''), (CHR ''B'', CHR ''b''), (CHR ''C'', CHR ''c''), (CHR ''D'', CHR ''d''),
      (CHR ''E'', CHR ''e''), (CHR ''F'', CHR ''f''), (CHR ''G'', CHR ''g''), (CHR ''H'', CHR ''h''),
      (CHR ''I'', CHR ''i''), (CHR ''J'', CHR ''j''), (CHR ''K'', CHR ''k''), (CHR ''L'', CHR ''l''),
      (CHR ''M'', CHR ''m''), (CHR ''N'', CHR ''n''), (CHR ''O'', CHR ''o''), (CHR ''P'', CHR ''p''),
      (CHR ''Q'', CHR ''q''), (CHR ''R'', CHR ''r''), (CHR ''S'', CHR ''s''), (CHR ''T'', CHR ''t''),
      (CHR ''U'', CHR ''u''), (CHR ''V'', CHR ''v''), (CHR ''W'', CHR ''w''), (CHR ''X'', CHR ''x''),
      (CHR ''Y'', CHR ''y''), (CHR ''Z'', CHR ''z'')]"

definition same_letter :: "char \<Rightarrow> char \<Rightarrow> bool" where
  "same_letter a b = (a = b \<or> (a, b) \<in> set letter_forms \<or> (b, a) \<in> set letter_forms)"

definition contains_ignoring_case :: "string \<Rightarrow> string \<Rightarrow> bool" where
  "contains_ignoring_case s q =
     list_ex (\<lambda>t. length q \<le> length t \<and> list_all2 same_letter (take (length q) t) q) (suffixes s)"

text \<open>An example result: an image id with a payload.\<close>

definition example_item :: "string \<Rightarrow> slip_data \<Rightarrow> extracted_item" where
  "example_item i d = \<lparr>imageId = i, data = Some d\<rparr>"

text \<open>
  An engine for the examples. It adds exactly, gives a built-in function the text that
  V8 gives it (the function under \<^verbatim>\<open>constructor\<close> is named \<^verbatim>\<open>Object\<close>), leaves an array
  with a text count in the order it has, and starts with a prototype that holds no bank
  name. Its lower-casing follows Unicode on the characters
  below 128 and on the Greek capital sigma (the bytes CE A3) next to them: by the rule
  for the final sigma, a sigma that follows a letter and is not followed by one becomes
  the final small sigma (CF 82), any other the small sigma (CF 83).
\<close>

definition is_letter :: "char \<Rightarrow> bool" where
  "is_letter c = (c \<in> fst ` set letter_forms \<or> c \<in> snd ` set letter_forms)"

fun sigma_lower :: "bool \<Rightarrow> string \<Rightarrow> string" where
  "sigma_lower after_letter [] = []"
| "sigma_lower after_letter [c] = [lower_char c]"
| "sigma_lower after_letter (c # d # cs) =
     (if c = CHR 0xCE \<and> d = CHR 0xA3 then
        (if after_letter \<and> \<not> (case cs of [] \<Rightarrow> False | x # xs \<Rightarrow> is_letter x)
         then [CHR 0xCF, CHR 0x82] else [CHR 0xCF, CHR 0x83]) @ sigma_lower True cs
      else lower_char c # sigma_lower (is_letter c) (d # cs))"

definition example_engine :: engine where
  "example_engine =
     \<lparr>unicode_lower = sigma_lower False,
      number_add = (\<lambda>a b. a + b),
      function_text =
        (\<lambda>k. ''function '' @ (if k = ''constructor'' then ''Object'' else k) @ ''() { [native code] }''),
      sort_dates = (\<lambda>dataArray. dataArray),
      sort_banks = (\<lambda>sortedBanks. sortedBanks),
      inherited_bankName = []\<rparr>"

subsection \<open>Export\<close>




subsection \<open>Aggregation\<close>

text \<open>
  A key is ordinary for an engine when a plain object inherits nothing under that name:
  it is not \<^verbatim>\<open>__proto__\<close>, names no built-in function of \<^verbatim>\<open>Object.prototype\<close>, and is not
  \<^verbatim>\<open>bankName\<close> when the prototype holds a bank name.
\<close>

definition ordinary_key :: "engine \<Rightarrow> string \<Rightarrow> bool" where
  "ordinary_key js k =
     (k \<noteq> ''__proto__'' \<and> k \<notin> set function_members \<and>
      (k = ''bankName'' \<longrightarrow> inherited_bankName js = []))"

text \<open>The distinct elements of a list, each at the place of its first occurrence.\<close>

definition first_seen :: "'a list \<Rightarrow> 'a list" where
  "first_seen xs = rev (remdups (rev xs))"

text \<open>The transaction dates of the records that have one, in order.\<close>

definition dates_of :: "slip_data list \<Rightarrow> string list" where
  "dates_of ds = map or_empty (filter truthy (map transactionDate ds))"

text \<open>An example result with a transaction date only.\<close>

definition dated :: "string \<Rightarrow> string \<Rightarrow> extracted_item" where
  "dated i d = example_item i (no_fields\<lparr>transactionDate := Some d\<rparr>)"

text \<open>The canonical bank names of the records that have a recipient bank name, in order.\<close>

definition banks_of :: "engine \<Rightarrow> slip_data list \<Rightarrow> string list" where
  "banks_of js ds =
     map (\<lambda>d. canonical_bank js (or_empty (recipientBankName d)))
       (filter (\<lambda>d. truthy (recipientBankName d)) ds)"

text \<open>An example result with a recipient bank name only.\<close>

definition paid_to_bank :: "string \<Rightarrow> string \<Rightarrow> extracted_item" where
  "paid_to_bank i b = example_item i (no_fields\<lparr>recipientBankName := Some b\<rparr>)"

text \<open>
  The recipient account numbers of the records that have one, in order; the records of
  one account; and the bank name shown for a group of records: the first recipient bank
  name among them that is not empty, or the placeholder.
\<close>

definition accounts_of :: "slip_data list \<Rightarrow> string list" where
  "accounts_of ds =
     map (\<lambda>d. or_empty (recipientBankAccountNumber d))
       (filter (\<lambda>d. truthy (recipientBankAccountNumber d)) ds)"

definition for_account :: "string \<Rightarrow> slip_data list \<Rightarrow> slip_data list" where
  "for_account k ds =
     filter (\<lambda>d. truthy (recipientBankAccountNumber d) \<and> or_empty (recipientBankAccountNumber d) = k) ds"

definition bank_names :: "slip_data list \<Rightarrow> string list" where
  "bank_names rs = filter (\<lambda>b. b \<noteq> []) (map (\<lambda>d. or_empty (recipientBankName d)) rs)"

definition first_bank_name :: "slip_data list \<Rightarrow> string" where
  "first_bank_name rs = (case bank_names rs of [] \<Rightarrow> ''-'' | b # _ \<Rightarrow> b)"

definition amounts :: "slip_data list \<Rightarrow> real list" where
  "amounts rs = map (\<lambda>d. or_zero (parsedAmount d)) rs"

text \<open>
  The amounts of a group added up as the loop does: from 0, one after the other, by the
  addition of the engine.
\<close>

definition total :: "engine \<Rightarrow> real list \<Rightarrow> real" where
  "total js xs = foldl (number_add js) 0 xs"

text \<open>
  The loop of lines 579 to 597 on a record whose account number is an own property or an
  ordinary key: the entry of the account, new when there is none, is updated.
\<close>

definition ordinary_step :: "engine \<Rightarrow> account_stats js_object \<Rightarrow> slip_data \<Rightarrow> account_stats js_object" where
  "ordinary_step js obj d =
     (if truthy (recipientBankAccountNumber d) then
        AList.update (or_empty (recipientBankAccountNumber d))
          (add_transfer js (or_zero (parsedAmount d)) (or_empty (recipientBankName d))
             (case map_of obj (or_empty (recipientBankAccountNumber d)) of
                None \<Rightarrow>
                  \<lparr>stat_count = 0, stat_totalAmount = 0,
                   stat_bankName = or_empty (recipientBankName d)\<rparr>
              | Some entry \<Rightarrow> entry))
          obj
      else obj)"

text \<open>An example result with a recipient account, a recipient bank name and an amount.\<close>

definition paid_to_account :: "string \<Rightarrow> string \<Rightarrow> string \<Rightarrow> real \<Rightarrow> extracted_item" where
  "paid_to_account i acc b x =
     example_item i
       (no_fields\<lparr>recipientBankAccountNumber := Some acc, recipientBankName := Some b,
                  parsedAmount := Some (Num x)\<rparr>)"

section \<open>The amount parser\<close>

lemma not_digit_chars: "\<not> is_digit (CHR ''.'')" "\<not> is_digit (CHR ''-'')"
  by (simp_all add: is_digit_def)

lemma neg_le_fraction: "- real a \<le> real b / 10 ^ n"
  by (rule order_trans[of _ 0]) simp_all

lemma parseFloat_sign:
  assumes "parseFloat k = Num x"
  shows "if prefix ''-'' k then x \<le> 0 else 0 \<le> x"
proof (cases k)
  case Nil
  with assms show ?thesis by (simp add: parseFloat_def)
next
  case (Cons c cs)
  with assms show ?thesis
    by (auto simp: parseFloat_def Let_def neg_le_fraction split: if_splits)
qed

lemma parseFloat_unsigned:
  assumes "starts_decimal r"
  shows "\<exists>x. parseFloat r = Num x \<and> 0 \<le> x"
proof -
  from assms obtain c cs where r: "r = c # cs" and
    c: "is_digit c \<or> (c = CHR ''.'' \<and> (\<exists>d ds. cs = d # ds \<and> is_digit d))"
    by (auto simp: starts_decimal_def split: list.splits)
  from c have sign: "c \<noteq> CHR ''-''"
    using not_digit_chars by auto
  from c have "takeWhile is_digit r \<noteq> [] \<or>
      (dropWhile is_digit r \<noteq> [] \<and> hd (dropWhile is_digit r) = CHR ''.'' \<and>
       takeWhile is_digit (tl (dropWhile is_digit r)) \<noteq> [])"
    unfolding r using not_digit_chars by auto
  then show ?thesis
    using sign unfolding r by (auto simp: parseFloat_def Let_def)
qed

lemma parseFloat_signed:
  assumes "starts_decimal r"
  shows "\<exists>x. parseFloat (CHR ''-'' # r) = Num x \<and> x \<le> 0"
proof -
  from assms obtain c cs where r: "r = c # cs" and
    c: "is_digit c \<or> (c = CHR ''.'' \<and> (\<exists>d ds. cs = d # ds \<and> is_digit d))"
    by (auto simp: starts_decimal_def split: list.splits)
  from c have "takeWhile is_digit r \<noteq> [] \<or>
      (dropWhile is_digit r \<noteq> [] \<and> hd (dropWhile is_digit r) = CHR ''.'' \<and>
       takeWhile is_digit (tl (dropWhile is_digit r)) \<noteq> [])"
    unfolding r using not_digit_chars by auto
  then show ?thesis
    by (auto simp: parseFloat_def Let_def neg_le_fraction)
qed

lemma parseAmount_kept:
  "strip_amount s \<noteq> [] \<Longrightarrow> parseAmount (Some s) = parseFloat (strip_amount s)"
  by (simp add: parseAmount_def truthy_def or_empty_def)

lemma parseFloat_zero: "parseFloat ''0'' = Num 0"
  by (simp add: parseFloat_def is_digit_def digits_val_def digit_val_def)

lemma parseAmount_empty_strip:
  "strip_amount s = [] \<Longrightarrow> parseAmount (Some s) = Num 0"
  by (simp add: parseAmount_def truthy_def parseFloat_zero)

text \<open>
  Claim C1, as amended. A missing amount, the empty text, \<open>abc\<close> and every text with no
  digit, point or minus sign give 0. The characters kept from a text are its digits,
  points and minus signs. When they start with a decimal number, the result is a number
  that is not negative; when they are a minus sign followed by the start of a decimal
  number, the result is a number that is not positive. Whenever the result is a number,
  it is not positive when the kept characters start with a minus sign and not negative
  when they do not: the replacement keeps the sign on purpose.
\<close>

theorem parseAmount_amended:
  "parseAmount None = Num 0 \<and>
   parseAmount (Some []) = Num 0 \<and>
   parseAmount (Some ''abc'') = Num 0 \<and>
   (\<forall>s. (\<forall>c \<in> set s. c \<notin> amount_chars) \<longrightarrow> parseAmount (Some s) = Num 0) \<and>
   (\<forall>s. starts_decimal (strip_amount s) \<longrightarrow> (\<exists>x. parseAmount (Some s) = Num x \<and> 0 \<le> x)) \<and>
   (\<forall>s r. strip_amount s = CHR ''-'' # r \<and> starts_decimal r \<longrightarrow>
      (\<exists>x. parseAmount (Some s) = Num x \<and> x \<le> 0)) \<and>
   (\<forall>s x. parseAmount (Some s) = Num x \<longrightarrow>
      (if prefix ''-'' (strip_amount s) then x \<le> 0 else 0 \<le> x))"
proof (intro conjI allI impI)
  show "parseAmount None = Num 0"
    by (simp add: parseAmount_def truthy_def parseFloat_zero)
  show "parseAmount (Some []) = Num 0"
    by (simp add: parseAmount_empty_strip strip_amount_def)
  show "parseAmount (Some ''abc'') = Num 0"
    by (simp add: parseAmount_empty_strip strip_amount_def amount_chars_def)
next
  fix s assume "\<forall>c \<in> set s. c \<notin> amount_chars"
  then have "strip_amount s = []"
    by (simp add: strip_amount_def filter_empty_conv)
  then show "parseAmount (Some s) = Num 0"
    by (rule parseAmount_empty_strip)
next
  fix s assume h: "starts_decimal (strip_amount s)"
  then have "strip_amount s \<noteq> []"
    by (auto simp: starts_decimal_def)
  with parseFloat_unsigned[OF h] show "\<exists>x. parseAmount (Some s) = Num x \<and> 0 \<le> x"
    by (simp add: parseAmount_kept)
next
  fix s r assume h: "strip_amount s = CHR ''-'' # r \<and> starts_decimal r"
  then have "parseAmount (Some s) = parseFloat (CHR ''-'' # r)"
    by (simp add: parseAmount_kept)
  with parseFloat_signed[of r] h show "\<exists>x. parseAmount (Some s) = Num x \<and> x \<le> 0"
    by simp
next
  fix s x assume h: "parseAmount (Some s) = Num x"
  show "if prefix ''-'' (strip_amount s) then x \<le> 0 else 0 \<le> x"
  proof (cases "strip_amount s = []")
    case True
    with h show ?thesis by (simp add: parseAmount_empty_strip)
  next
    case False
    with h have "parseFloat (strip_amount s) = Num x"
      by (simp add: parseAmount_kept)
    then show ?thesis by (rule parseFloat_sign)
  qed
qed

text \<open>
  The amended claim C1 at the amount \<open>1,234.50 THB\<close>, which is read as 1234.5, and at
  \<open>THB -5\<close>, which is read as -5.
\<close>

theorem parseAmount_amended_witness:
  "starts_decimal (strip_amount ''1,234.50 THB'') \<and>
   parseAmount (Some ''1,234.50 THB'') = Num 1234.5 \<and>
   strip_amount ''THB -5'' = CHR ''-'' # ''5'' \<and> starts_decimal ''5'' \<and>
   parseAmount (Some ''THB -5'') = Num (- 5)"
proof -
  have a: "strip_amount ''1,234.50 THB'' = ''1234.50''" "strip_amount ''THB -5'' = ''-5''"
    by (simp_all add: strip_amount_def amount_chars_def)
  have b: "parseAmount (Some ''1,234.50 THB'') = Num 1234.5"
    "parseAmount (Some ''THB -5'') = Num (- 5)"
    by (simp_all add: parseAmount_def a truthy_def or_empty_def parseFloat_def is_digit_def
        digits_val_def digit_val_def)
  have c: "starts_decimal (strip_amount ''1,234.50 THB'')" "starts_decimal ''5''"
    by (simp_all add: a starts_decimal_def is_digit_def)
  note amended = parseAmount_amended
  have "\<exists>x. parseAmount (Some ''1,234.50 THB'') = Num x \<and> 0 \<le> x"
    by (rule amended[THEN conjunct2, THEN conjunct2, THEN conjunct2, THEN conjunct2,
          THEN conjunct1, rule_format, OF c(1)])
  with a b c show ?thesis by simp
qed

text \<open>
  Claim C1 as stated fails: the amount \<open>-5\<close> is parsed as the negative number -5, and an
  amount whose kept characters are a lone point is parsed as NaN.
\<close>

theorem parseAmount_counterexample:
  "parseAmount (Some ''-5'') = Num (- 5) \<and> parseAmount (Some ''.'') = NaN"
  by (simp add: parseAmount_def strip_amount_def amount_chars_def truthy_def or_empty_def
      parseFloat_def is_digit_def digits_val_def digit_val_def)

section \<open>The extraction batch: properties\<close>

lemma process_image_updated:
  "updatedExtractedData (process_image e ex b img) = updatedExtractedData b @ image_result e ex img"
  by (simp add: process_image_def extract_image_def image_result_def has_prior_def
      with_parsedAmount_def Let_def split: option.splits ai_response.splits)

lemma process_image_calls:
  "ai_calls (process_image e ex b img) = ai_calls b @ (if has_prior ex img then [] else [img])"
  by (simp add: process_image_def extract_image_def has_prior_def Let_def
      split: option.splits ai_response.splits)

lemma process_image_writes:
  "setDoc_calls (process_image e ex b img) = setDoc_calls b @ image_writes e ex img"
  by (simp add: process_image_def extract_image_def image_writes_def has_prior_def
      with_parsedAmount_def Let_def split: option.splits ai_response.splits)

lemma process_image_error:
  "batch_error (process_image e ex b img) =
     (if has_prior ex img then batch_error b
      else case image_failure e img of None \<Rightarrow> batch_error b | Some m \<Rightarrow> Some m)"
  by (simp add: process_image_def extract_image_def image_failure_def has_prior_def
      with_parsedAmount_def Let_def split: option.splits ai_response.splits)

lemma foldl_updated:
  "updatedExtractedData (foldl (process_image e ex) b imgs) =
     updatedExtractedData b @ concat (map (image_result e ex) imgs)"
  by (induction imgs arbitrary: b) (simp_all add: process_image_updated)

lemma foldl_calls:
  "ai_calls (foldl (process_image e ex) b imgs) =
     ai_calls b @ filter (\<lambda>img. \<not> has_prior ex img) imgs"
  by (induction imgs arbitrary: b) (simp_all add: process_image_calls)

lemma foldl_writes:
  "setDoc_calls (foldl (process_image e ex) b imgs) =
     setDoc_calls b @ concat (map (image_writes e ex) imgs)"
  by (induction imgs arbitrary: b) (simp_all add: process_image_writes)

lemma foldl_error:
  "batch_error (foldl (process_image e ex) b imgs) =
     (case batch_error (foldl (process_image e ex) empty_batch imgs) of
        None \<Rightarrow> batch_error b | Some m \<Rightarrow> Some m)"
proof (induction imgs rule: rev_induct)
  case Nil
  show ?case by (simp add: empty_batch_def)
next
  case (snoc img imgs)
  show ?case
    by (simp add: process_image_error snoc.IH split: option.splits)
qed

lemma process_images_updated:
  "updatedExtractedData (process_images e ex imgs) = concat (map (image_result e ex) imgs)"
  by (simp add: process_images_def foldl_updated empty_batch_def)

lemma process_images_calls:
  "ai_calls (process_images e ex imgs) = filter (\<lambda>img. \<not> has_prior ex img) imgs"
  by (simp add: process_images_def foldl_calls empty_batch_def)

lemma process_images_writes:
  "setDoc_calls (process_images e ex imgs) = concat (map (image_writes e ex) imgs)"
  by (simp add: process_images_def foldl_writes empty_batch_def)

lemma process_images_error_append:
  "batch_error (process_images e ex (xs @ ys)) =
     (case batch_error (process_images e ex ys) of
        None \<Rightarrow> batch_error (process_images e ex xs) | Some m \<Rightarrow> Some m)"
  unfolding process_images_def foldl_append by (rule foldl_error)

lemma process_images_error_single:
  "batch_error (process_images e ex [img]) =
     (if has_prior ex img then None else image_failure e img)"
  by (simp add: process_images_def process_image_error empty_batch_def split: option.splits)

lemma image_result_data: "item \<in> set (image_result e ex img) \<Longrightarrow> data item \<noteq> None"
  by (auto simp: image_result_def has_prior_def split: option.splits ai_response.splits if_splits)

lemma image_result_id: "item \<in> set (image_result e ex img) \<Longrightarrow> imageId item = id' img"
  by (auto simp: image_result_def has_prior_def split: option.splits ai_response.splits if_splits
      dest: find_Some_iff[THEN iffD1])

lemma updated_data: "item \<in> set (updatedExtractedData (process_images e ex imgs)) \<Longrightarrow> data item \<noteq> None"
  by (auto simp: process_images_updated dest: image_result_data)

lemma those_map_Some: "those (map f xs) \<noteq> None \<longleftrightarrow> (\<forall>x \<in> set xs. f x \<noteq> None)"
  by (induction xs) (auto split: option.splits)

lemma generateCsv_ok:
  "(\<forall>item \<in> set items. data item \<noteq> None) \<Longrightarrow> \<exists>csv. generateCsv v a u items = Inr csv"
proof -
  assume h: "\<forall>item \<in> set items. data item \<noteq> None"
  then have "\<forall>item \<in> set items. csv_row v a u item \<noteq> None"
    by (auto simp: csv_row_def split: option.splits)
  then have "those (map (csv_row v a u) items) \<noteq> None"
    using those_map_Some[of "csv_row v a u" items] by blast
  then show ?thesis
    by (auto simp: generateCsv_def split: option.splits)
qed

lemma processSlipWithAI_ready:
  assumes "selectedImages st \<noteq> []" and "db st" and "truthy (userId st)"
  shows "snd (processSlipWithAI e st) = process_images e (extractedData st) (selectedImages st)"
    and "extractedData (fst (processSlipWithAI e st)) =
           updatedExtractedData (process_images e (extractedData st) (selectedImages st))"
    and "error (fst (processSlipWithAI e st)) =
           batch_error (process_images e (extractedData st) (selectedImages st))"
    and "selectedImages (fst (processSlipWithAI e st)) = selectedImages st"
    and "db (fst (processSlipWithAI e st)) = db st"
    and "userId (fst (processSlipWithAI e st)) = userId st"
    and "loading (fst (processSlipWithAI e st)) = False"
proof -
  let ?b = "process_images e (extractedData st) (selectedImages st)"
  obtain csv where csv: "generateCsv (viewerUrlBase e) (appId e) (or_empty (userId st))
      (updatedExtractedData ?b) = Inr csv"
    using generateCsv_ok[of "updatedExtractedData ?b"] updated_data by blast
  show "snd (processSlipWithAI e st) = ?b"
    using assms csv by (simp add: processSlipWithAI_def Let_def)
  show "extractedData (fst (processSlipWithAI e st)) = updatedExtractedData ?b"
    using assms csv by (simp add: processSlipWithAI_def Let_def)
  show "error (fst (processSlipWithAI e st)) = batch_error ?b"
    using assms csv by (simp add: processSlipWithAI_def Let_def)
  show "selectedImages (fst (processSlipWithAI e st)) = selectedImages st"
    using assms csv by (simp add: processSlipWithAI_def Let_def)
  show "db (fst (processSlipWithAI e st)) = db st"
    using assms csv by (simp add: processSlipWithAI_def Let_def)
  show "userId (fst (processSlipWithAI e st)) = userId st"
    using assms csv by (simp add: processSlipWithAI_def Let_def)
  show "loading (fst (processSlipWithAI e st)) = False"
    using assms csv by (simp add: processSlipWithAI_def Let_def)
qed

lemmas example_defs = no_fields_def example_image_def example_state_def example_env_def

lemma process_images_append_parts:
  "updatedExtractedData (process_images e ex (xs @ ys)) =
     updatedExtractedData (process_images e ex xs) @ updatedExtractedData (process_images e ex ys)"
  "ai_calls (process_images e ex (xs @ ys)) =
     ai_calls (process_images e ex xs) @ ai_calls (process_images e ex ys)"
  "setDoc_calls (process_images e ex (xs @ ys)) =
     setDoc_calls (process_images e ex xs) @ setDoc_calls (process_images e ex ys)"
  by (simp_all add: process_images_updated process_images_calls process_images_writes)

text \<open>
  Claim C2, as amended. When \<^verbatim>\<open>setDoc\<close> rejects for an image whose extraction was
  parsed, the batch goes on with the next image and the message of line 383 is set, but
  the extraction of that image is not added to the result list: the results are those of
  the images before it followed by those of the images after it. The model was called
  for the image and the write was attempted.
\<close>

theorem write_failure_drops_result:
  assumes "db st" and "truthy (userId st)" and "selectedImages st = pre @ img # post"
    and "\<not> has_prior (extractedData st) img"
    and "fetch e img = Parsed parsedJson"
    and "\<not> setDoc e (id' img) (with_parsedAmount parsedJson)"
  shows "updatedExtractedData (snd (processSlipWithAI e st)) =
           updatedExtractedData (process_images e (extractedData st) pre) @
           updatedExtractedData (process_images e (extractedData st) post) \<and>
         extractedData (fst (processSlipWithAI e st)) =
           updatedExtractedData (snd (processSlipWithAI e st)) \<and>
         ai_calls (snd (processSlipWithAI e st)) =
           ai_calls (process_images e (extractedData st) pre) @ [img] @
           ai_calls (process_images e (extractedData st) post) \<and>
         setDoc_calls (snd (processSlipWithAI e st)) =
           setDoc_calls (process_images e (extractedData st) pre) @
           [(id' img, with_parsedAmount parsedJson)] @
           setDoc_calls (process_images e (extractedData st) post) \<and>
         batch_error (process_images e (extractedData st) (pre @ [img])) = Some CannotParseAnswer \<and>
         error (fst (processSlipWithAI e st)) =
           (case batch_error (process_images e (extractedData st) post) of
              None \<Rightarrow> Some CannotParseAnswer
            | Some m \<Rightarrow> Some m)"
proof -
  let ?ex = "extractedData st"
  have ne: "selectedImages st \<noteq> []" using assms(3) by simp
  note r = processSlipWithAI_ready[OF ne assms(1,2), of e]
  have split: "pre @ img # post = pre @ [img] @ post" by simp
  have one_r: "updatedExtractedData (process_images e ?ex [img]) = []"
    using assms(4-6) by (simp add: process_images_updated image_result_def)
  have one_c: "ai_calls (process_images e ?ex [img]) = [img]"
    using assms(4) by (simp add: process_images_calls)
  have one_w: "setDoc_calls (process_images e ?ex [img]) = [(id' img, with_parsedAmount parsedJson)]"
    using assms(4,5) by (simp add: process_images_writes image_writes_def)
  have one_e: "batch_error (process_images e ?ex [img]) = Some CannotParseAnswer"
    using assms(4-6) by (simp add: process_images_error_single image_failure_def)
  have e1: "batch_error (process_images e ?ex (pre @ [img])) = Some CannotParseAnswer"
    by (simp add: process_images_error_append one_e)
  have e2: "batch_error (process_images e ?ex (pre @ img # post)) =
      (case batch_error (process_images e ?ex post) of
         None \<Rightarrow> Some CannotParseAnswer | Some m \<Rightarrow> Some m)"
    using process_images_error_append[of e ?ex "pre @ [img]" post] e1
    by (simp split: option.splits)
  have u: "updatedExtractedData (process_images e ?ex (pre @ img # post)) =
      updatedExtractedData (process_images e ?ex pre) @ updatedExtractedData (process_images e ?ex post)"
    using process_images_append_parts(1)[of e ?ex pre "[img] @ post"]
      process_images_append_parts(1)[of e ?ex "[img]" post] one_r by simp
  have c: "ai_calls (process_images e ?ex (pre @ img # post)) =
      ai_calls (process_images e ?ex pre) @ [img] @ ai_calls (process_images e ?ex post)"
    using process_images_append_parts(2)[of e ?ex pre "[img] @ post"]
      process_images_append_parts(2)[of e ?ex "[img]" post] one_c by simp
  have w: "setDoc_calls (process_images e ?ex (pre @ img # post)) =
      setDoc_calls (process_images e ?ex pre) @ [(id' img, with_parsedAmount parsedJson)] @
      setDoc_calls (process_images e ?ex post)"
    using process_images_append_parts(3)[of e ?ex pre "[img] @ post"]
      process_images_append_parts(3)[of e ?ex "[img]" post] one_w by simp
  show ?thesis
    unfolding r assms(3) using u c w e1 e2 by blast
qed

text \<open>
  The amended claim C2 on two images whose writes both fail: both are submitted to the
  model and the result list is empty.
\<close>

theorem write_failure_drops_result_witness:
  "updatedExtractedData
     (snd (processSlipWithAI (example_env (\<lambda>_. Parsed no_fields) (\<lambda>_ _. False))
        (example_state [example_image ''a'', example_image ''b''] []))) = [] \<and>
   map id' (ai_calls
     (snd (processSlipWithAI (example_env (\<lambda>_. Parsed no_fields) (\<lambda>_ _. False))
        (example_state [example_image ''a'', example_image ''b''] [])))) = [''a'', ''b'']"
proof -
  let ?e = "example_env (\<lambda>_. Parsed no_fields) (\<lambda>_ _. False)"
  let ?st = "example_state [example_image ''a'', example_image ''b''] []"
  have "db ?st" "truthy (userId ?st)"
    "selectedImages ?st = [] @ example_image ''a'' # [example_image ''b'']"
    "\<not> has_prior (extractedData ?st) (example_image ''a'')"
    "fetch ?e (example_image ''a'') = Parsed no_fields"
    "\<not> setDoc ?e (id' (example_image ''a'')) (with_parsedAmount no_fields)"
    by (simp_all add: example_defs truthy_def has_prior_def)
  from write_failure_drops_result[OF this]
  have "updatedExtractedData (snd (processSlipWithAI ?e ?st)) =
          updatedExtractedData (process_images ?e (extractedData ?st) []) @
          updatedExtractedData (process_images ?e (extractedData ?st) [example_image ''b''])"
    and "ai_calls (snd (processSlipWithAI ?e ?st)) =
          ai_calls (process_images ?e (extractedData ?st) []) @ [example_image ''a''] @
          ai_calls (process_images ?e (extractedData ?st) [example_image ''b''])"
    by blast+
  then show ?thesis
    by (simp add: process_images_def process_image_def extract_image_def empty_batch_def
        example_defs)
qed

text \<open>
  Claim C2 as stated fails: with one image whose extraction is parsed and whose write
  is rejected, \<^verbatim>\<open>setDoc\<close> was called for the image and the result list is empty.
\<close>

theorem write_failure_counterexample:
  "extractedData
     (fst (processSlipWithAI (example_env (\<lambda>_. Parsed no_fields) (\<lambda>_ _. False))
        (example_state [example_image ''a''] []))) = [] \<and>
   map fst (setDoc_calls
     (snd (processSlipWithAI (example_env (\<lambda>_. Parsed no_fields) (\<lambda>_ _. False))
        (example_state [example_image ''a''] [])))) = [''a'']"
  by (simp add: processSlipWithAI_def process_images_def process_image_def extract_image_def
      empty_batch_def example_defs truthy_def Let_def)

lemma has_prior_all_data:
  assumes "\<forall>item \<in> set ex. data item \<noteq> None"
  shows "has_prior ex img \<longleftrightarrow> id' img \<in> imageId ` set ex"
proof (cases "find (\<lambda>item. imageId item = id' img) ex")
  case None
  then have "id' img \<notin> imageId ` set ex"
    by (auto simp: find_None_iff)
  with None show ?thesis
    by (simp add: has_prior_def)
next
  case (Some item)
  then have in_ex: "item \<in> set ex" and same: "imageId item = id' img"
    by (auto simp: find_Some_iff)
  from in_ex same have "id' img \<in> imageId ` set ex"
    by (metis imageI)
  moreover from in_ex assms Some have "has_prior ex img"
    by (simp add: has_prior_def)
  ultimately show ?thesis by simp
qed

lemma has_prior_found:
  "has_prior ex img \<Longrightarrow>
     \<exists>item. find (\<lambda>it. imageId it = id' img) ex = Some item \<and> data item \<noteq> None \<and>
            image_result e ex img = [item]"
  by (auto simp: has_prior_def image_result_def split: option.splits)

lemma image_writes_id: "w \<in> set (image_writes e ex img) \<Longrightarrow> fst w = id' img \<and> \<not> has_prior ex img"
  by (auto simp: image_writes_def split: if_splits ai_response.splits)

lemma has_prior_same_id: "id' a = id' b \<Longrightarrow> has_prior ex a = has_prior ex b"
  by (simp add: has_prior_def)

text \<open>
  Claim C3, as amended. In a batch that passes the early returns, an image with a prior
  result is not submitted to the model, no \<^verbatim>\<open>setDoc\<close> call carries its id, and the entry
  found for it is in the new result list; the model is called exactly for the images
  without a prior result, in order. A second batch on the state the first one left submits
  exactly the images whose id has no entry in the first result list: none when every
  image got a result. For two images of which only the second lacks a prior result, the
  model is called once, for the second.
\<close>

theorem dedup_amended:
  assumes "db st" and "truthy (userId st)" and "selectedImages st \<noteq> []"
  shows "(\<forall>img \<in> set (selectedImages st). has_prior (extractedData st) img \<longrightarrow>
            img \<notin> set (ai_calls (snd (processSlipWithAI e1 st))) \<and>
            id' img \<notin> fst ` set (setDoc_calls (snd (processSlipWithAI e1 st))) \<and>
            (\<exists>item. find (\<lambda>it. imageId it = id' img) (extractedData st) = Some item \<and>
                    item \<in> set (extractedData (fst (processSlipWithAI e1 st))))) \<and>
         ai_calls (snd (processSlipWithAI e1 st)) =
           filter (\<lambda>img. \<not> has_prior (extractedData st) img) (selectedImages st) \<and>
         ai_calls (snd (processSlipWithAI e2 (fst (processSlipWithAI e1 st)))) =
           filter (\<lambda>img. id' img \<notin> imageId ` set (extractedData (fst (processSlipWithAI e1 st))))
             (selectedImages st) \<and>
         ((\<forall>img \<in> set (selectedImages st).
              id' img \<in> imageId ` set (extractedData (fst (processSlipWithAI e1 st)))) \<longrightarrow>
            ai_calls (snd (processSlipWithAI e2 (fst (processSlipWithAI e1 st)))) = []) \<and>
         (\<forall>first second. selectedImages st = [first, second] \<and>
              has_prior (extractedData st) first \<and> \<not> has_prior (extractedData st) second \<longrightarrow>
            ai_calls (snd (processSlipWithAI e1 st)) = [second])"
proof -
  let ?ex = "extractedData st" and ?imgs = "selectedImages st"
  let ?st1 = "fst (processSlipWithAI e1 st)"
  note r1 = processSlipWithAI_ready[OF assms(3,1,2), of e1]
  have ready1: "selectedImages ?st1 \<noteq> []" "db ?st1" "truthy (userId ?st1)"
    using assms by (simp_all add: r1)
  note r2 = processSlipWithAI_ready[OF ready1, of e2]
  have calls1: "ai_calls (snd (processSlipWithAI e1 st)) = filter (\<lambda>img. \<not> has_prior ?ex img) ?imgs"
    by (simp add: r1 process_images_calls)
  have data1: "\<forall>item \<in> set (extractedData ?st1). data item \<noteq> None"
    unfolding r1 using updated_data by blast
  have calls2: "ai_calls (snd (processSlipWithAI e2 ?st1)) =
      filter (\<lambda>img. id' img \<notin> imageId ` set (extractedData ?st1)) ?imgs"
    unfolding r2 process_images_calls r1(4)
    using has_prior_all_data[OF data1] by simp
  have skip: "\<forall>img \<in> set ?imgs. has_prior ?ex img \<longrightarrow>
            img \<notin> set (ai_calls (snd (processSlipWithAI e1 st))) \<and>
            id' img \<notin> fst ` set (setDoc_calls (snd (processSlipWithAI e1 st))) \<and>
            (\<exists>item. find (\<lambda>it. imageId it = id' img) ?ex = Some item \<and>
                    item \<in> set (extractedData ?st1))"
  proof (intro ballI impI conjI)
    fix img assume img: "img \<in> set ?imgs" and p: "has_prior ?ex img"
    show "img \<notin> set (ai_calls (snd (processSlipWithAI e1 st)))"
      using p by (simp add: calls1)
    show "id' img \<notin> fst ` set (setDoc_calls (snd (processSlipWithAI e1 st)))"
    proof
      assume "id' img \<in> fst ` set (setDoc_calls (snd (processSlipWithAI e1 st)))"
      then obtain w other where "other \<in> set ?imgs" "w \<in> set (image_writes e1 ?ex other)"
          "fst w = id' img"
        by (auto simp: r1 process_images_writes)
      then have "id' other = id' img" "\<not> has_prior ?ex other"
        using image_writes_id by fastforce+
      with p show False
        using has_prior_same_id by blast
    qed
    from has_prior_found[OF p, of e1] obtain item where
      "find (\<lambda>it. imageId it = id' img) ?ex = Some item" "image_result e1 ?ex img = [item]"
      by blast
    with img show "\<exists>item. find (\<lambda>it. imageId it = id' img) ?ex = Some item \<and>
        item \<in> set (extractedData ?st1)"
      by (force simp: r1 process_images_updated)
  qed
  have all: "(\<forall>img \<in> set ?imgs. id' img \<in> imageId ` set (extractedData ?st1)) \<longrightarrow>
      ai_calls (snd (processSlipWithAI e2 ?st1)) = []"
    by (simp add: calls2 filter_empty_conv)
  have two: "\<forall>first second. ?imgs = [first, second] \<and>
              has_prior ?ex first \<and> \<not> has_prior ?ex second \<longrightarrow>
            ai_calls (snd (processSlipWithAI e1 st)) = [second]"
    by (simp add: calls1)
  from skip calls1 calls2 all two show ?thesis by blast
qed

lemmas run_defs = process_images_def process_image_def extract_image_def empty_batch_def Let_def

text \<open>
  The amended claim C3 on two images, the first with a prior result: the first batch
  submits the second image only, and the second batch submits nothing.
\<close>

theorem dedup_amended_witness:
  "map id' (ai_calls (snd (processSlipWithAI (example_env (\<lambda>_. Parsed no_fields) (\<lambda>_ _. True))
      (example_state [example_image ''a'', example_image ''b'']
         [\<lparr>imageId = ''a'', data = Some no_fields\<rparr>])))) = [''b''] \<and>
   ai_calls (snd (processSlipWithAI (example_env (\<lambda>_. Parsed no_fields) (\<lambda>_ _. True))
      (fst (processSlipWithAI (example_env (\<lambda>_. Parsed no_fields) (\<lambda>_ _. True))
         (example_state [example_image ''a'', example_image ''b'']
            [\<lparr>imageId = ''a'', data = Some no_fields\<rparr>]))))) = []"
proof -
  let ?e = "example_env (\<lambda>_. Parsed no_fields) (\<lambda>_ _. True)"
  let ?st = "example_state [example_image ''a'', example_image ''b'']
         [\<lparr>imageId = ''a'', data = Some no_fields\<rparr>]"
  have ready: "db ?st" "truthy (userId ?st)" "selectedImages ?st \<noteq> []"
    by (simp_all add: example_defs truthy_def)
  have ex1: "extractedData (fst (processSlipWithAI ?e ?st)) =
      updatedExtractedData (process_images ?e (extractedData ?st) (selectedImages ?st))"
    using processSlipWithAI_ready(2)[OF ready(3,1,2)] .
  have ids: "imageId ` set (extractedData (fst (processSlipWithAI ?e ?st))) = {''a'', ''b''}"
    unfolding ex1 by (simp add: run_defs example_defs)
  from dedup_amended[OF ready, of ?e ?e]
  have "ai_calls (snd (processSlipWithAI ?e ?st)) =
          filter (\<lambda>img. \<not> has_prior (extractedData ?st) img) (selectedImages ?st)"
    and "ai_calls (snd (processSlipWithAI ?e (fst (processSlipWithAI ?e ?st)))) =
          filter (\<lambda>img. id' img \<notin> imageId ` set (extractedData (fst (processSlipWithAI ?e ?st))))
            (selectedImages ?st)"
    by blast+
  then show ?thesis
    unfolding ids by (simp add: example_defs has_prior_def)
qed

text \<open>
  Claim C3 as stated fails: when the model gives no usable answer for an image, the first
  batch returns no result for it, and the second batch, seeded from the first, calls the
  model for it again.
\<close>

theorem dedup_counterexample:
  "map id' (ai_calls (snd (processSlipWithAI (example_env (\<lambda>_. NoCandidates) (\<lambda>_ _. True))
      (fst (processSlipWithAI (example_env (\<lambda>_. NoCandidates) (\<lambda>_ _. True))
         (example_state [example_image ''a''] [])))))) = [''a'']"
  by (simp add: processSlipWithAI_def run_defs example_defs truthy_def)

text \<open>
  Claim C4. When an image that is submitted fails (the call rejects, the answer has no
  candidate or cannot be parsed, or the write is rejected), the message of that failure is
  set when the image is done, and the loop goes on from there over the remaining
  images: each remaining image without a prior result is still submitted, the results
  are those of the images before and after the failed one, and the message shown at the
  end is that of the last failure.
\<close>

theorem failure_never_aborts:
  assumes "db st" and "truthy (userId st)" and "selectedImages st = pre @ img # post"
    and "\<not> has_prior (extractedData st) img"
    and "image_failure e img = Some msg"
  shows "batch_error (process_images e (extractedData st) (pre @ [img])) = Some msg \<and>
         snd (processSlipWithAI e st) =
           foldl (process_image e (extractedData st))
             (process_images e (extractedData st) (pre @ [img])) post \<and>
         ai_calls (snd (processSlipWithAI e st)) =
           ai_calls (process_images e (extractedData st) pre) @ [img] @
           filter (\<lambda>i. \<not> has_prior (extractedData st) i) post \<and>
         updatedExtractedData (snd (processSlipWithAI e st)) =
           updatedExtractedData (process_images e (extractedData st) pre) @
           updatedExtractedData (process_images e (extractedData st) post) \<and>
         error (fst (processSlipWithAI e st)) =
           (case batch_error (process_images e (extractedData st) post) of
              None \<Rightarrow> Some msg
            | Some m \<Rightarrow> Some m)"
proof -
  let ?ex = "extractedData st"
  have ne: "selectedImages st \<noteq> []" using assms(3) by simp
  note r = processSlipWithAI_ready[OF ne assms(1,2), of e]
  have one_e: "batch_error (process_images e ?ex [img]) = Some msg"
    using assms(4,5) by (simp add: process_images_error_single)
  have e1: "batch_error (process_images e ?ex (pre @ [img])) = Some msg"
    by (simp add: process_images_error_append one_e)
  have e2: "batch_error (process_images e ?ex (pre @ img # post)) =
      (case batch_error (process_images e ?ex post) of None \<Rightarrow> Some msg | Some m \<Rightarrow> Some m)"
    using process_images_error_append[of e ?ex "pre @ [img]" post] e1
    by (simp split: option.splits)
  have one_r: "image_result e ?ex img = []"
    using assms(4,5)
    by (auto simp: image_result_def image_failure_def split: ai_response.splits if_splits)
  have u: "updatedExtractedData (process_images e ?ex (pre @ img # post)) =
      updatedExtractedData (process_images e ?ex pre) @ updatedExtractedData (process_images e ?ex post)"
    by (simp add: process_images_updated one_r)
  have c: "ai_calls (process_images e ?ex (pre @ img # post)) =
      ai_calls (process_images e ?ex pre) @ [img] @ filter (\<lambda>i. \<not> has_prior ?ex i) post"
    using assms(4) by (simp add: process_images_calls)
  have f: "process_images e ?ex (pre @ img # post) =
      foldl (process_image e ?ex) (process_images e ?ex (pre @ [img])) post"
    by (simp add: process_images_def)
  show ?thesis
    unfolding r assms(3) using e1 e2 u c f by blast
qed

text \<open>
  Claim C4 on two images where the call for the first is rejected: both are submitted,
  the second gets its result, and the message of the failure is kept.
\<close>

theorem failure_never_aborts_witness:
  "map id' (ai_calls (snd (processSlipWithAI
      (example_env (\<lambda>i. if id' i = ''a'' then FetchError ''offline'' else Parsed no_fields) (\<lambda>_ _. True))
      (example_state [example_image ''a'', example_image ''b''] [])))) = [''a'', ''b''] \<and>
   map imageId (updatedExtractedData (snd (processSlipWithAI
      (example_env (\<lambda>i. if id' i = ''a'' then FetchError ''offline'' else Parsed no_fields) (\<lambda>_ _. True))
      (example_state [example_image ''a'', example_image ''b''] [])))) = [''b''] \<and>
   error (fst (processSlipWithAI
      (example_env (\<lambda>i. if id' i = ''a'' then FetchError ''offline'' else Parsed no_fields) (\<lambda>_ _. True))
      (example_state [example_image ''a'', example_image ''b''] []))) = Some (ProcessingFailed ''offline'')"
proof -
  let ?e = "example_env (\<lambda>i. if id' i = ''a'' then FetchError ''offline'' else Parsed no_fields) (\<lambda>_ _. True)"
  let ?st = "example_state [example_image ''a'', example_image ''b''] []"
  have "db ?st" "truthy (userId ?st)"
    "selectedImages ?st = [] @ example_image ''a'' # [example_image ''b'']"
    "\<not> has_prior (extractedData ?st) (example_image ''a'')"
    "image_failure ?e (example_image ''a'') = Some (ProcessingFailed ''offline'')"
    by (simp_all add: example_defs truthy_def has_prior_def image_failure_def)
  from failure_never_aborts[OF this]
  have "ai_calls (snd (processSlipWithAI ?e ?st)) =
          ai_calls (process_images ?e (extractedData ?st) []) @ [example_image ''a''] @
          filter (\<lambda>i. \<not> has_prior (extractedData ?st) i) [example_image ''b'']"
    and "updatedExtractedData (snd (processSlipWithAI ?e ?st)) =
          updatedExtractedData (process_images ?e (extractedData ?st) []) @
          updatedExtractedData (process_images ?e (extractedData ?st) [example_image ''b''])"
    and "error (fst (processSlipWithAI ?e ?st)) =
          (case batch_error (process_images ?e (extractedData ?st) [example_image ''b'']) of
             None \<Rightarrow> Some (ProcessingFailed ''offline'')
           | Some m \<Rightarrow> Some m)"
    by blast+
  then show ?thesis
    by (simp add: run_defs example_defs has_prior_def)
qed

lemma set_sort_key_image: "set (sort_key f xs) = set xs"
  by simp

lemma onSnapshot_fields:
  "db (onSnapshot docs st) = db st"
  "userId (onSnapshot docs st) = userId st"
  by (simp_all add: onSnapshot_def Let_def)

lemma onSnapshot_images:
  "set (selectedImages (onSnapshot docs st)) =
     (\<lambda>d. \<lparr>id' = or_empty (doc_id d), dataUrl = or_empty (doc_dataUrl d), timestamp = doc_timestamp d\<rparr>) `
       {d \<in> set docs. truthy (doc_id d) \<and> truthy (doc_dataUrl d)}"
  by (simp add: onSnapshot_def Let_def)

lemma onSnapshot_data:
  "set (extractedData (onSnapshot docs st)) =
     (\<lambda>d. \<lparr>imageId = or_empty (doc_id d), data = doc_extractedData d\<rparr>) `
       {d \<in> set docs. truthy (doc_id d) \<and> truthy (doc_dataUrl d) \<and> doc_extractedData d \<noteq> None}"
  by (auto simp: onSnapshot_def Let_def)

lemma truthy_or_empty_inj: "truthy x \<Longrightarrow> truthy y \<Longrightarrow> or_empty x = or_empty y \<Longrightarrow> x = y"
  by (auto simp: truthy_def or_empty_def split: option.splits)

text \<open>
  Claim C10. In a batch that passes the early returns, an image is submitted to the model
  whenever every entry with its id has a null payload (in particular when there is
  none); so an image that is not submitted has an entry with a payload. For a snapshot of
  stored documents, an image document whose payload is null (and no document with the
  same id has one) is submitted by the batch that follows the snapshot.
\<close>

theorem null_payload_is_no_prior_result:
  assumes "db st" and "truthy (userId st)"
  shows "(\<forall>img \<in> set (selectedImages st).
            (\<forall>item \<in> set (extractedData st). imageId item = id' img \<longrightarrow> data item = None) \<longrightarrow>
            img \<in> set (ai_calls (snd (processSlipWithAI e st)))) \<and>
         (\<forall>img \<in> set (selectedImages st).
            img \<notin> set (ai_calls (snd (processSlipWithAI e st))) \<longrightarrow>
            (\<exists>item \<in> set (extractedData st). imageId item = id' img \<and> data item \<noteq> None)) \<and>
         (\<forall>docs. \<forall>d \<in> set docs.
            truthy (doc_id d) \<and> truthy (doc_dataUrl d) \<and>
            (\<forall>d' \<in> set docs. doc_id d' = doc_id d \<longrightarrow> doc_extractedData d' = None) \<longrightarrow>
            or_empty (doc_id d) \<in> id' ` set (ai_calls (snd (processSlipWithAI e (onSnapshot docs st)))))"
proof -
  have none_called: "img \<in> set (ai_calls (snd (processSlipWithAI e s)))"
    if "db s" "truthy (userId s)" "img \<in> set (selectedImages s)"
      "\<forall>item \<in> set (extractedData s). imageId item = id' img \<longrightarrow> data item = None"
    for s img
  proof -
    have ne: "selectedImages s \<noteq> []" using that(3) by auto
    have "\<not> has_prior (extractedData s) img"
    proof (cases "find (\<lambda>item. imageId item = id' img) (extractedData s)")
      case None
      then show ?thesis by (simp add: has_prior_def)
    next
      case (Some item)
      then have "item \<in> set (extractedData s)" "imageId item = id' img"
        by (auto simp: find_Some_iff)
      with that(4) have "data item = None" by blast
      with Some show ?thesis by (simp add: has_prior_def)
    qed
    with that(3) show ?thesis
      by (simp add: processSlipWithAI_ready(1)[OF ne that(1,2)] process_images_calls)
  qed
  have a: "\<forall>img \<in> set (selectedImages st).
            (\<forall>item \<in> set (extractedData st). imageId item = id' img \<longrightarrow> data item = None) \<longrightarrow>
            img \<in> set (ai_calls (snd (processSlipWithAI e st)))"
    using none_called[OF assms] by blast
  have b: "\<forall>img \<in> set (selectedImages st).
            img \<notin> set (ai_calls (snd (processSlipWithAI e st))) \<longrightarrow>
            (\<exists>item \<in> set (extractedData st). imageId item = id' img \<and> data item \<noteq> None)"
    using a by blast
  have c: "\<forall>docs. \<forall>d \<in> set docs.
            truthy (doc_id d) \<and> truthy (doc_dataUrl d) \<and>
            (\<forall>d' \<in> set docs. doc_id d' = doc_id d \<longrightarrow> doc_extractedData d' = None) \<longrightarrow>
            or_empty (doc_id d) \<in> id' ` set (ai_calls (snd (processSlipWithAI e (onSnapshot docs st))))"
  proof (intro allI ballI impI)
    fix docs :: "slip_doc list" and d :: slip_doc
    assume d: "d \<in> set docs"
      and h: "truthy (doc_id d) \<and> truthy (doc_dataUrl d) \<and>
            (\<forall>d' \<in> set docs. doc_id d' = doc_id d \<longrightarrow> doc_extractedData d' = None)"
    let ?s = "onSnapshot docs st"
    let ?img = "\<lparr>id' = or_empty (doc_id d), dataUrl = or_empty (doc_dataUrl d),
        timestamp = doc_timestamp d\<rparr>"
    have img: "?img \<in> set (selectedImages ?s)"
      unfolding onSnapshot_images using d h by blast
    have "\<forall>item \<in> set (extractedData ?s). imageId item = id' ?img \<longrightarrow> data item = None"
    proof (intro ballI impI)
      fix item assume "item \<in> set (extractedData ?s)" and same: "imageId item = id' ?img"
      then obtain d' where d': "d' \<in> set docs" "truthy (doc_id d')"
          "item = \<lparr>imageId = or_empty (doc_id d'), data = doc_extractedData d'\<rparr>"
        unfolding onSnapshot_data by blast
      with same h have "doc_id d' = doc_id d"
        by (auto intro: truthy_or_empty_inj)
      with h d' show "data item = None" by simp
    qed
    from none_called[of ?s ?img, OF _ _ img this] assms
    have "?img \<in> set (ai_calls (snd (processSlipWithAI e ?s)))"
      by (simp add: onSnapshot_fields)
    then show "or_empty (doc_id d) \<in> id' ` set (ai_calls (snd (processSlipWithAI e ?s)))"
      by force
  qed
  from a b c show ?thesis by blast
qed

lemma example_snapshot:
  "onSnapshot [example_doc ''a'' 2 None, example_doc ''b'' 1 (Some no_fields)] (example_state [] []) =
     example_state
       [\<lparr>id' = ''b'', dataUrl = ''data:image/png;base64,AAAA'', timestamp = Some 1\<rparr>,
        \<lparr>id' = ''a'', dataUrl = ''data:image/png;base64,AAAA'', timestamp = Some 2\<rparr>]
       [\<lparr>imageId = ''b'', data = Some no_fields\<rparr>]"
  by (simp add: onSnapshot_def example_doc_def example_state_def truthy_def or_empty_def
      ts_or_zero_def Let_def)

text \<open>
  Claim C10 on a snapshot of two documents: image \<open>a\<close> with a null payload and image
  \<open>b\<close> with an extraction. The batch submits \<open>a\<close>, and only \<open>a\<close>.
\<close>

theorem null_payload_is_no_prior_result_witness:
  "or_empty (doc_id (example_doc ''a'' 2 None)) \<in>
     id' ` set (ai_calls (snd (processSlipWithAI (example_env (\<lambda>_. Parsed no_fields) (\<lambda>_ _. True))
       (onSnapshot [example_doc ''a'' 2 None, example_doc ''b'' 1 (Some no_fields)]
          (example_state [] []))))) \<and>
   map id' (ai_calls (snd (processSlipWithAI (example_env (\<lambda>_. Parsed no_fields) (\<lambda>_ _. True))
       (onSnapshot [example_doc ''a'' 2 None, example_doc ''b'' 1 (Some no_fields)]
          (example_state [] []))))) = [''a'']"
proof -
  let ?e = "example_env (\<lambda>_. Parsed no_fields) (\<lambda>_ _. True)"
  let ?docs = "[example_doc ''a'' 2 None, example_doc ''b'' 1 (Some no_fields)]"
  let ?d = "example_doc ''a'' 2 None"
  have ready: "db (example_state [] [])" "truthy (userId (example_state [] []))"
    by (simp_all add: example_state_def truthy_def)
  have hyp: "?d \<in> set ?docs" "truthy (doc_id ?d) \<and> truthy (doc_dataUrl ?d) \<and>
      (\<forall>d' \<in> set ?docs. doc_id d' = doc_id ?d \<longrightarrow> doc_extractedData d' = None)"
    by (simp_all add: example_doc_def truthy_def)
  from null_payload_is_no_prior_result[OF ready, of ?e] hyp
  have "or_empty (doc_id ?d) \<in>
      id' ` set (ai_calls (snd (processSlipWithAI ?e (onSnapshot ?docs (example_state [] [])))))"
    by blast
  moreover have "map id' (ai_calls (snd (processSlipWithAI ?e (onSnapshot ?docs (example_state [] []))))) = [''a'']"
    unfolding example_snapshot
    by (simp add: processSlipWithAI_def run_defs example_defs truthy_def generateCsv_def
        csv_row_def split: option.splits)
  ultimately show ?thesis by blast
qed

section \<open>The search filter: properties\<close>

lemma str_includes_sublist: "str_includes s q \<longleftrightarrow> sublist q s"
  by (induction s) (auto simp: sublist_Cons_right)






text \<open>Lower-casing identifies exactly the two forms of a letter.\<close>

lemma letter_table:
  "zip ''ABCDEFGHIJKLMNOPQRSTUVWXYZ'' ''abcdefghijklmnopqrstuvwxyz'' = letter_forms"
  by (simp add: letter_forms_def)

lemma letter_forms_distinct:
  "distinct (map fst letter_forms)" "distinct (map snd letter_forms)"
  "set (map fst letter_forms) \<inter> set (map snd letter_forms) = {}"
  by (simp_all add: letter_forms_def)

lemma table_lookup_eq_iff:
  assumes f: "distinct (map fst ps)" and s: "distinct (map snd ps)"
    and d: "set (map fst ps) \<inter> set (map snd ps) = {}"
  shows "(case map_of ps a of Some l \<Rightarrow> l | None \<Rightarrow> a) = (case map_of ps b of Some l \<Rightarrow> l | None \<Rightarrow> b)
           \<longleftrightarrow> (a = b \<or> (a, b) \<in> set ps \<or> (b, a) \<in> set ps)"
proof -
  have look: "map_of ps x = Some y \<longleftrightarrow> (x, y) \<in> set ps" for x y
    using f by simp
  have none: "map_of ps x = None \<longleftrightarrow> x \<notin> fst ` set ps" for x
    by (simp add: map_of_eq_None_iff)
  have inj: "x = x'" if "(x, y) \<in> set ps" "(x', y) \<in> set ps" for x x' y
  proof -
    from s have "inj_on snd (set ps)" by (simp add: distinct_map)
    from inj_onD[OF this, of "(x, y)" "(x', y)"] that show ?thesis by simp
  qed
  have apart: "\<not> ((x, y) \<in> set ps \<and> (y, z) \<in> set ps)" for x y z
  proof
    assume "(x, y) \<in> set ps \<and> (y, z) \<in> set ps"
    then have "y \<in> set (map snd ps)" "y \<in> set (map fst ps)" by force+
    with d show False by blast
  qed
  let ?va = "case map_of ps a of Some l \<Rightarrow> l | None \<Rightarrow> a"
  let ?vb = "case map_of ps b of Some l \<Rightarrow> l | None \<Rightarrow> b"
  show ?thesis
  proof (cases "map_of ps a")
    case None
    note a = this
    then have va: "?va = a" by simp
    from a have na: "(a, y) \<notin> set ps" for y
      using look[of a y] by simp
    show ?thesis
    proof (cases "map_of ps b")
      case None
      then have vb: "?vb = b" by simp
      from None have "(b, y) \<notin> set ps" for y
        using look[of b y] by simp
      with na show ?thesis
        unfolding va vb by simp
    next
      case (Some lb)
      then have vb: "?vb = lb" by simp
      from a Some have "a \<noteq> b" by auto
      moreover have "(b, a) \<in> set ps \<longleftrightarrow> a = lb"
        using look[of b a] Some by auto
      ultimately show ?thesis
        unfolding va vb using na by simp
    qed
  next
    case (Some la)
    note a = this
    then have va: "?va = la" by simp
    from a have ia: "(a, la) \<in> set ps" by (simp add: look)
    show ?thesis
    proof (cases "map_of ps b")
      case None
      then have vb: "?vb = b" by simp
      from None have nb: "(b, y) \<notin> set ps" for y
        using look[of b y] by simp
      from a None have "a \<noteq> b" by auto
      moreover have "(a, b) \<in> set ps \<longleftrightarrow> la = b"
        using look[of a b] a by auto
      ultimately show ?thesis
        unfolding va vb using nb by simp
    next
      case (Some lb)
      then have vb: "?vb = lb" by simp
      from Some have ib: "(b, lb) \<in> set ps" by (simp add: look)
      have "la = lb \<longleftrightarrow> a = b"
        using ia ib inj a Some by auto
      moreover have "(a, b) \<notin> set ps" "(b, a) \<notin> set ps"
        using apart ia ib by blast+
      ultimately show ?thesis
        unfolding va vb by simp
    qed
  qed
qed

lemma lower_char_eq_iff: "lower_char a = lower_char b \<longleftrightarrow> same_letter a b"
  unfolding lower_char_def same_letter_def letter_table
  by (rule table_lookup_eq_iff[OF letter_forms_distinct])

lemma map_lower_eq_iff: "map lower_char w = map lower_char q \<longleftrightarrow> list_all2 same_letter w q"
proof -
  have "list_all2 same_letter w q \<longleftrightarrow> list_all2 (=) (map lower_char w) (map lower_char q)"
    by (simp add: list_all2_map1 list_all2_map2 lower_char_eq_iff)
  then show ?thesis
    by (simp add: list.rel_eq)
qed

lemma sublist_map_iff:
  "sublist (map f q) (map f s) \<longleftrightarrow>
     (\<exists>t. suffix t s \<and> length q \<le> length t \<and> map f (take (length q) t) = map f q)"
proof
  assume "sublist (map f q) (map f s)"
  then obtain ps ss where "map f s = ps @ map f q @ ss"
    by (auto simp: sublist_def)
  then have "\<exists>p r. s = p @ r \<and> ps = map f p \<and> map f q @ ss = map f r"
    by (simp only: map_eq_append_conv)
  then obtain p r where s: "s = p @ r" and r: "map f q @ ss = map f r"
    by blast
  from r have "\<exists>w s'. r = w @ s' \<and> map f q = map f w \<and> ss = map f s'"
    by (simp only: append_eq_map_conv)
  then obtain w s' where r': "r = w @ s'" and w: "map f w = map f q"
    by metis
  from w have "length w = length q"
    by (rule map_eq_imp_length_eq)
  with s r' w have "suffix r s \<and> length q \<le> length r \<and> map f (take (length q) r) = map f q"
    by (simp add: suffix_def)
  then show "\<exists>t. suffix t s \<and> length q \<le> length t \<and> map f (take (length q) t) = map f q" ..
next
  assume "\<exists>t. suffix t s \<and> length q \<le> length t \<and> map f (take (length q) t) = map f q"
  then obtain t p where s: "s = p @ t" and m: "map f (take (length q) t) = map f q"
    by (auto simp: suffix_def)
  have "map f s = map f p @ map f (take (length q) t) @ map f (drop (length q) t)"
    unfolding s by (simp add: map_append[symmetric] del: map_append)
  then show "sublist (map f q) (map f s)"
    unfolding m sublist_def by blast
qed

lemma ascii_contains_iff:
  assumes "list_all ascii q" and "list_all ascii s"
  shows "sublist (toLowerCase js q) (toLowerCase js s) \<longleftrightarrow> contains_ignoring_case s q"
  using assms
  by (simp add: toLowerCase_def sublist_map_iff map_lower_eq_iff contains_ignoring_case_def
      list_ex_iff Bex_def)






section \<open>The export document: properties\<close>


















section \<open>Plain objects used as maps: properties\<close>

lemma those_map_Some_id: "those (map Some ds) = Some ds"
  by (induction ds) simp_all

lemma payloads_Some: "map data items = map Some ds \<Longrightarrow> payloads items = Inr ds"
  by (simp add: payloads_def those_map_Some_id)

lemma first_seen_snoc:
  "first_seen (xs @ [x]) = (if x \<in> set xs then first_seen xs else first_seen xs @ [x])"
  by (simp add: first_seen_def)

lemma set_first_seen: "set (first_seen xs) = set xs"
  by (simp add: first_seen_def)

lemma distinct_first_seen: "distinct (first_seen xs)"
  by (simp add: first_seen_def)

lemma set_key_order: "set (key_order ks) = set ks"
  by (auto simp: key_order_def)

lemma distinct_key_order: "distinct ks \<Longrightarrow> distinct (key_order ks)"
  by (auto simp: key_order_def)

lemma key_order_no_index: "\<forall>k \<in> set ks. \<not> is_array_index k \<Longrightarrow> key_order ks = ks"
  by (simp add: key_order_def filter_empty_conv[THEN iffD2] filter_id_conv[THEN iffD2])

lemma inherited_ordinary: "ordinary_key js k \<Longrightarrow> inherited (inherited_bankName js) k = Missing"
  by (auto simp: ordinary_key_def inherited_def)

lemma bump_ordinary:
  assumes "ordinary_key js k" and "counter_of obj k = Count n"
  shows "bump js obj k = AList.update k (Count (n + 1)) obj"
  using assms
  by (auto simp: bump_def counter_of_def inherited_ordinary split: option.splits counter.splits)

lemma counter_of_update:
  "counter_of (AList.update k v obj) k' = (if k' = k then v else counter_of obj k')"
  by (simp add: counter_of_def update_conv')

lemma foldl_bump_counter:
  "\<forall>k \<in> set ks. ordinary_key js k \<Longrightarrow>
     counter_of (foldl (bump js) [] ks) k' = Count (count_list ks k')"
proof (induction ks arbitrary: k' rule: rev_induct)
  case Nil
  show ?case by (simp add: counter_of_def)
next
  case (snoc k ks)
  then have ord: "ordinary_key js k" and IH: "\<And>k'. counter_of (foldl (bump js) [] ks) k' = Count (count_list ks k')"
    by simp_all
  have "foldl (bump js) [] (ks @ [k]) =
      AList.update k (Count (count_list ks k + 1)) (foldl (bump js) [] ks)"
    using bump_ordinary[OF ord IH] by simp
  then show ?case
    by (simp add: counter_of_update IH)
qed

lemma foldl_bump_keys:
  "\<forall>k \<in> set ks. ordinary_key js k \<Longrightarrow> map fst (foldl (bump js) [] ks) = first_seen ks"
proof (induction ks rule: rev_induct)
  case Nil
  show ?case by (simp add: first_seen_def)
next
  case (snoc k ks)
  then have ord: "ordinary_key js k" and all: "\<forall>k \<in> set ks. ordinary_key js k"
    and IH: "map fst (foldl (bump js) [] ks) = first_seen ks"
    by simp_all
  have keys: "set (map fst (foldl (bump js) [] ks)) = set ks"
    by (simp only: IH set_first_seen)
  have "foldl (bump js) [] (ks @ [k]) =
      AList.update k (Count (count_list ks k + 1)) (foldl (bump js) [] ks)"
    using bump_ordinary[OF ord foldl_bump_counter[OF all]] by simp
  then show ?case
    using keys by (simp add: update_keys first_seen_snoc IH del: set_map)
qed

lemma set_sort_desc: "set (sort_desc n xs) = set xs"
  by (simp add: sort_desc_def)

lemma distinct_map_insort_key:
  "distinct (map f (insort_key g x xs)) = (f x \<notin> f ` set xs \<and> distinct (map f xs))"
  by (induction xs) (auto simp: set_insort_key)

lemma distinct_map_sort_key: "distinct (map f (sort_key g xs)) = distinct (map f xs)"
  by (induction xs) (simp_all add: distinct_map_insort_key)

lemma distinct_map_sort_desc: "distinct (map f (sort_desc n xs)) = distinct (map f xs)"
  by (simp add: sort_desc_def distinct_map_sort_key)

lemma sorted_sort_desc: "sorted_wrt (\<lambda>a b. n b \<le> n a) (sort_desc n xs)"
proof -
  have "sorted (map (\<lambda>x. - int (n x)) (sort_desc n xs))"
    unfolding sort_desc_def by (rule sorted_sort_key)
  then show ?thesis
    by (simp add: sorted_wrt_map)
qed

lemma sort_desc_stable: "filter (\<lambda>x. n x = c) (sort_desc n xs) = filter (\<lambda>x. n x = c) xs"
  using sort_key_stable[of "\<lambda>x. - int (n x)" "- int c" xs] by (simp add: sort_desc_def)

section \<open>Transactions per day: properties\<close>

lemma foldl_frequency_step:
  "foldl (frequency_step js) obj ds = foldl (bump js) obj (dates_of ds)"
  by (induction ds arbitrary: obj) (simp_all add: frequency_step_def dates_of_def)

lemma sort_by_count_numbers:
  "sort_by_count js (map (\<lambda>k. \<lparr>date = k, count = Count (c k)\<rparr>) ks) =
     sort_desc (\<lambda>e. count_val (count e)) (map (\<lambda>k. \<lparr>date = k, count = Count (c k)\<rparr>) ks)"
  by (simp add: sort_by_count_def list_all_iff is_count_def)

lemma dailyFrequencyData_eq:
  assumes "map data items = map Some ds" and "\<forall>k \<in> set (dates_of ds). ordinary_key js k"
  shows "dailyFrequencyData js items =
           Inr (sort_desc (\<lambda>e. count_val (count e))
                  (map (\<lambda>k. \<lparr>date = k, count = Count (count_list (dates_of ds) k)\<rparr>)
                     (key_order (first_seen (dates_of ds)))))"
  by (simp add: dailyFrequencyData_def payloads_Some[OF assms(1)] foldl_frequency_step
      Object_keys_def foldl_bump_keys[OF assms(2)] foldl_bump_counter[OF assms(2)]
      sort_by_count_numbers)

text \<open>
  Claim C5, as amended. For results that all have a payload and whose dates are ordinary
  keys, the daily frequency has one group per distinct date among the records that have
  a date, each with the number of records of that date, largest count first. Groups
  with equal counts come in the order of \<^verbatim>\<open>Object.keys\<close>: the dates that are array
  indices first, in ascending numeric order, then the other dates in the order in which
  they were first met. When no date is an array index, groups with equal counts keep the
  order in which their dates were first met.
\<close>

theorem daily_frequency_amended:
  assumes "map data items = map Some ds" and "\<forall>k \<in> set (dates_of ds). ordinary_key js k"
  shows "\<exists>r. dailyFrequencyData js items = Inr r \<and>
           set (map date r) = set (dates_of ds) \<and>
           distinct (map date r) \<and>
           (\<forall>e \<in> set r. count e = Count (count_list (dates_of ds) (date e))) \<and>
           sorted_wrt (\<lambda>a b. count_val (count b) \<le> count_val (count a)) r \<and>
           (\<forall>n. map date (filter (\<lambda>e. count e = Count n) r) =
                  filter (\<lambda>k. count_list (dates_of ds) k = n) (key_order (first_seen (dates_of ds)))) \<and>
           ((\<forall>k \<in> set (dates_of ds). \<not> is_array_index k) \<longrightarrow>
              (\<forall>n. map date (filter (\<lambda>e. count e = Count n) r) =
                     filter (\<lambda>k. count_list (dates_of ds) k = n) (first_seen (dates_of ds))))"
proof -
  let ?D = "dates_of ds"
  let ?mk = "\<lambda>k. \<lparr>date = k, count = Count (count_list ?D k)\<rparr>"
  let ?keys = "key_order (first_seen ?D)"
  let ?n = "\<lambda>e. count_val (count e)"
  let ?r = "sort_desc ?n (map ?mk ?keys)"
  have r: "dailyFrequencyData js items = Inr ?r"
    by (rule dailyFrequencyData_eq[OF assms])
  have dates: "map date (map ?mk ks) = ks" for ks
    by (simp add: comp_def)
  have s: "set (map date ?r) = set ?D"
    by (simp add: set_sort_desc set_key_order set_first_seen image_image)
  have d: "distinct (map date ?r)"
    by (simp only: distinct_map_sort_desc dates distinct_key_order distinct_first_seen)
  have c: "\<forall>e \<in> set ?r. count e = Count (count_list ?D (date e))"
    by (auto simp: set_sort_desc)
  have o: "sorted_wrt (\<lambda>a b. ?n b \<le> ?n a) ?r"
    by (rule sorted_sort_desc)
  have t: "map date (filter (\<lambda>e. count e = Count n) ?r) = filter (\<lambda>k. count_list ?D k = n) ?keys" for n
  proof -
    have "filter (\<lambda>e. count e = Count n) ?r = filter (\<lambda>e. ?n e = n) ?r"
      by (rule filter_cong[OF refl]) (auto simp: set_sort_desc count_val_def)
    then show ?thesis
      by (simp add: sort_desc_stable filter_map comp_def count_val_def)
  qed
  have u: "(\<forall>k \<in> set ?D. \<not> is_array_index k) \<longrightarrow>
      (\<forall>n. map date (filter (\<lambda>e. count e = Count n) ?r) =
             filter (\<lambda>k. count_list ?D k = n) (first_seen ?D))"
  proof
    assume "\<forall>k \<in> set ?D. \<not> is_array_index k"
    then have "?keys = first_seen ?D"
      by (simp add: key_order_no_index set_first_seen)
    with t show "\<forall>n. map date (filter (\<lambda>e. count e = Count n) ?r) =
        filter (\<lambda>k. count_list ?D k = n) (first_seen ?D)"
      by simp
  qed
  from r s d c o t u show ?thesis by blast
qed

text \<open>The definitions that evaluate an aggregation on a concrete input.\<close>

lemmas aggregate_eval =
  payloads_def frequency_step_def bump_def inherited_def function_members_def Object_keys_def
  key_order_def is_array_index_def is_digit_def digits_val_def digit_val_def counter_of_def
  sort_by_count_def sort_by_value_def is_count_def count_val_def sort_desc_def truthy_def
  or_empty_def example_item_def no_fields_def example_engine_def

text \<open>
  Claim C5 as stated fails on ties and on dates that a plain object inherits. The dates
  \<open>20240102\<close> and \<open>20240101\<close>, met in that order and once each, come out with
  \<open>20240101\<close> first. A record dated \<^verbatim>\<open>__proto__\<close> is in no group, and the count of a
  record dated \<^verbatim>\<open>toString\<close> is a text.
\<close>

theorem daily_frequency_counterexample:
  "dailyFrequencyData example_engine [dated ''img-1'' ''20240102'', dated ''img-2'' ''20240101''] =
     Inr [\<lparr>date = ''20240101'', count = Count 1\<rparr>, \<lparr>date = ''20240102'', count = Count 1\<rparr>] \<and>
   dailyFrequencyData example_engine [dated ''img-1'' ''__proto__''] = Inr [] \<and>
   dailyFrequencyData example_engine [dated ''img-1'' ''toString''] =
     Inr [\<lparr>date = ''toString'', count = Text ''function toString() { [native code] }1''\<rparr>]"
  by (simp add: dailyFrequencyData_def dated_def aggregate_eval)

text \<open>
  The amended claim C5 on the dates \<open>2024-01-01\<close>, \<open>2024-01-01\<close>, \<open>2024-01-02\<close>, and
  on the two dates \<open>2024-01-02\<close> and \<open>2024-01-01\<close>, which are no array indices and keep
  the order in which they were met.
\<close>

theorem daily_frequency_amended_witness:
  "dailyFrequencyData example_engine
     [dated ''img-1'' ''2024-01-01'', dated ''img-2'' ''2024-01-01'', dated ''img-3'' ''2024-01-02''] =
   Inr [\<lparr>date = ''2024-01-01'', count = Count 2\<rparr>, \<lparr>date = ''2024-01-02'', count = Count 1\<rparr>] \<and>
   dailyFrequencyData example_engine [dated ''img-1'' ''2024-01-02'', dated ''img-2'' ''2024-01-01''] =
   Inr [\<lparr>date = ''2024-01-02'', count = Count 1\<rparr>, \<lparr>date = ''2024-01-01'', count = Count 1\<rparr>]"
proof -
  let ?items = "[dated ''img-1'' ''2024-01-01'', dated ''img-2'' ''2024-01-01'',
      dated ''img-3'' ''2024-01-02'']"
  let ?ds = "[no_fields\<lparr>transactionDate := Some ''2024-01-01''\<rparr>,
      no_fields\<lparr>transactionDate := Some ''2024-01-01''\<rparr>,
      no_fields\<lparr>transactionDate := Some ''2024-01-02''\<rparr>]"
  let ?ties = "[dated ''img-1'' ''2024-01-02'', dated ''img-2'' ''2024-01-01'']"
  have p: "map data ?items = map Some ?ds"
    by (simp add: dated_def example_item_def)
  have k: "\<forall>k \<in> set (dates_of ?ds). ordinary_key example_engine k"
    by (simp add: dates_of_def truthy_def or_empty_def no_fields_def ordinary_key_def
        function_members_def)
  from daily_frequency_amended[OF p k]
  obtain r where r: "dailyFrequencyData example_engine ?items = Inr r"
    by (elim exE conjE)
  have first: "dailyFrequencyData example_engine ?items =
      Inr [\<lparr>date = ''2024-01-01'', count = Count 2\<rparr>, \<lparr>date = ''2024-01-02'', count = Count 1\<rparr>]"
    by (simp add: dailyFrequencyData_def dated_def aggregate_eval)
  have ties: "dailyFrequencyData example_engine ?ties =
      Inr [\<lparr>date = ''2024-01-02'', count = Count 1\<rparr>, \<lparr>date = ''2024-01-01'', count = Count 1\<rparr>]"
    by (simp add: dailyFrequencyData_def dated_def aggregate_eval)
  from r first ties show ?thesis by simp
qed


section \<open>Bank usage: properties\<close>

lemma foldl_bank_step:
  "foldl (bank_step js) obj ds = foldl (bump js) obj (banks_of js ds)"
  by (induction ds arbitrary: obj) (simp_all add: bank_step_def banks_of_def)

lemma sort_by_value_numbers:
  "sort_by_value js (map (\<lambda>k. \<lparr>name = k, value' = Count (c k)\<rparr>) ks) =
     sort_desc (\<lambda>e. count_val (value' e)) (map (\<lambda>k. \<lparr>name = k, value' = Count (c k)\<rparr>) ks)"
  by (simp add: sort_by_value_def list_all_iff is_count_def)

lemma bankUsageData_eq:
  assumes "map data items = map Some ds" and "\<forall>k \<in> set (banks_of js ds). ordinary_key js k"
  shows "bankUsageData js items =
           Inr (sort_desc (\<lambda>e. count_val (value' e))
                  (map (\<lambda>k. \<lparr>name = k, value' = Count (count_list (banks_of js ds) k)\<rparr>)
                     (key_order (first_seen (banks_of js ds)))))"
  by (simp add: bankUsageData_def payloads_Some[OF assms(1)] foldl_bank_step
      Object_keys_def foldl_bump_keys[OF assms(2)] foldl_bump_counter[OF assms(2)]
      sort_by_value_numbers)

lemma canonical_bank_krungsri:
  "canonical_bank js ''KRUNGSRI BANK'' = th_krungsri" "canonical_bank js ''Krungsri'' = th_krungsri"
  by (simp_all add: canonical_bank_def trim_def white_space_def toLowerCase_def ascii_def
      lower_char_def)

lemma ascii_includes_pattern:
  assumes "list_all ascii t" and "list_all ascii q" and "map lower_char q = q"
  shows "str_includes (toLowerCase js t) q \<longleftrightarrow> contains_ignoring_case t q"
proof -
  have "toLowerCase js q = q"
    using assms(2,3) by (simp add: toLowerCase_def)
  with ascii_contains_iff[OF assms(2,1), of js] show ?thesis
    by (simp add: str_includes_sublist)
qed

lemma ascii_no_thai:
  assumes "list_all ascii t" and "CHR 0xE0 \<in> set th"
  shows "\<not> str_includes t th"
proof
  assume "str_includes t th"
  then have "set th \<subseteq> set t"
    by (simp add: str_includes_sublist set_mono_sublist)
  with assms(2) have "CHR 0xE0 \<in> set t" by blast
  with assms(1) have "ascii (CHR 0xE0)" by (simp add: list_all_iff)
  then show False by (simp add: ascii_def)
qed

lemma canonical_bank_ascii:
  assumes "list_all ascii (trim b)"
  shows "canonical_bank js b =
           (if contains_ignoring_case (trim b) ''krungsri'' then th_krungsri
            else if contains_ignoring_case (trim b) ''kasikorn'' then th_kasikornthai
            else if contains_ignoring_case (trim b) ''scb'' then th_thaipanich
            else trim b)"
proof -
  have k: "str_includes (toLowerCase js (trim b)) ''krungsri'' = contains_ignoring_case (trim b) ''krungsri''"
    by (rule ascii_includes_pattern[OF assms]) (simp_all add: ascii_def lower_char_def)
  have n: "str_includes (toLowerCase js (trim b)) ''kasikorn'' = contains_ignoring_case (trim b) ''kasikorn''"
    by (rule ascii_includes_pattern[OF assms]) (simp_all add: ascii_def lower_char_def)
  have s: "str_includes (toLowerCase js (trim b)) ''scb'' = contains_ignoring_case (trim b) ''scb''"
    by (rule ascii_includes_pattern[OF assms]) (simp_all add: ascii_def lower_char_def)
  have t: "\<not> str_includes (trim b) th_kasikorn_part" "\<not> str_includes (trim b) th_thaipanich"
    by (rule ascii_no_thai[OF assms], simp add: th_kasikorn_part_def th_thaipanich_def)+
  show ?thesis
    by (simp add: canonical_bank_def k n s t)
qed

text \<open>
  The bank usage on ordinary keys. For results that all have a payload and whose
  canonical bank names are ordinary keys, the bank usage has one group per distinct
  canonical name among the records that have a recipient bank name, each with the number
  of records of that canonical name, largest count first. \<open>KRUNGSRI BANK\<close> and
  \<open>Krungsri\<close> both have the Thai label of Krungsri as canonical name. A bank name that,
  trimmed, holds only characters below 128 has the label of Krungsri when it contains
  \<open>krungsri\<close> ignoring case, else the label of Kasikorn when it contains \<open>kasikorn\<close>,
  else the label of Thai Panich when it contains \<open>scb\<close>, and else is its own canonical
  name, trimmed.
\<close>

lemma bank_usage_ordinary_keys:
  assumes "map data items = map Some ds" and "\<forall>k \<in> set (banks_of js ds). ordinary_key js k"
  shows "(\<exists>r. bankUsageData js items = Inr r \<and>
            set (map name r) = set (banks_of js ds) \<and>
            distinct (map name r) \<and>
            (\<forall>e \<in> set r. value' e = Count (count_list (banks_of js ds) (name e))) \<and>
            sorted_wrt (\<lambda>a b. count_val (value' b) \<le> count_val (value' a)) r) \<and>
         canonical_bank js ''KRUNGSRI BANK'' = th_krungsri \<and>
         canonical_bank js ''Krungsri'' = th_krungsri \<and>
         (\<forall>b. list_all ascii (trim b) \<longrightarrow>
            canonical_bank js b =
              (if contains_ignoring_case (trim b) ''krungsri'' then th_krungsri
               else if contains_ignoring_case (trim b) ''kasikorn'' then th_kasikornthai
               else if contains_ignoring_case (trim b) ''scb'' then th_thaipanich
               else trim b))"
proof -
  let ?B = "banks_of js ds"
  let ?mk = "\<lambda>k. \<lparr>name = k, value' = Count (count_list ?B k)\<rparr>"
  let ?n = "\<lambda>e. count_val (value' e)"
  let ?r = "sort_desc ?n (map ?mk (key_order (first_seen ?B)))"
  have r: "bankUsageData js items = Inr ?r"
    by (rule bankUsageData_eq[OF assms])
  have names: "map name (map ?mk ks) = ks" for ks
    by (simp add: comp_def)
  have s: "set (map name ?r) = set ?B"
    by (simp add: set_sort_desc set_key_order set_first_seen image_image)
  have d: "distinct (map name ?r)"
    by (simp only: distinct_map_sort_desc names distinct_key_order distinct_first_seen)
  have c: "\<forall>e \<in> set ?r. value' e = Count (count_list ?B (name e))"
    by (auto simp: set_sort_desc)
  have o: "sorted_wrt (\<lambda>a b. ?n b \<le> ?n a) ?r"
    by (rule sorted_sort_desc)
  have g: "\<exists>r. bankUsageData js items = Inr r \<and>
            set (map name r) = set ?B \<and>
            distinct (map name r) \<and>
            (\<forall>e \<in> set r. value' e = Count (count_list ?B (name e))) \<and>
            sorted_wrt (\<lambda>a b. ?n b \<le> ?n a) r"
    using r s d c o by blast
  have k: "canonical_bank js ''KRUNGSRI BANK'' = th_krungsri"
    "canonical_bank js ''Krungsri'' = th_krungsri"
    by (rule canonical_bank_krungsri)+
  have a: "\<forall>b. list_all ascii (trim b) \<longrightarrow>
            canonical_bank js b =
              (if contains_ignoring_case (trim b) ''krungsri'' then th_krungsri
               else if contains_ignoring_case (trim b) ''kasikorn'' then th_kasikornthai
               else if contains_ignoring_case (trim b) ''scb'' then th_thaipanich
               else trim b)"
    using canonical_bank_ascii by blast
  from g k a show ?thesis by (intro conjI)
qed

text \<open>The definitions that evaluate the canonical name of a bank.\<close>

lemmas canonical_eval =
  bank_step_def canonical_bank_def trim_def white_space_def toLowerCase_def ascii_def
  lower_char_def th_krungsri_def th_kasikorn_part_def th_kasikornthai_def th_thaipanich_def

text \<open>
  Three results with the bank names \<open>KRUNGSRI BANK\<close>, \<open>Bangkok Bank\<close> between spaces,
  and \<open>Krungsri\<close>: a group of the Thai label for Krungsri with count 2, then a group of
  \<open>Bangkok Bank\<close> with count 1.
\<close>

lemma bank_usage_example:
  "bankUsageData example_engine
     [paid_to_bank ''img-1'' ''KRUNGSRI BANK'', paid_to_bank ''img-2'' '' Bangkok Bank '',
      paid_to_bank ''img-3'' ''Krungsri''] =
     Inr [\<lparr>name = th_krungsri, value' = Count 2\<rparr>, \<lparr>name = ''Bangkok Bank'', value' = Count 1\<rparr>]"
proof -
  let ?items = "[paid_to_bank ''img-1'' ''KRUNGSRI BANK'', paid_to_bank ''img-2'' '' Bangkok Bank '',
      paid_to_bank ''img-3'' ''Krungsri'']"
  let ?ds = "[no_fields\<lparr>recipientBankName := Some ''KRUNGSRI BANK''\<rparr>,
      no_fields\<lparr>recipientBankName := Some '' Bangkok Bank ''\<rparr>,
      no_fields\<lparr>recipientBankName := Some ''Krungsri''\<rparr>]"
  have p: "map data ?items = map Some ?ds"
    by (simp add: paid_to_bank_def example_item_def)
  have b: "banks_of example_engine ?ds = [th_krungsri, ''Bangkok Bank'', th_krungsri]"
    by (simp add: banks_of_def truthy_def or_empty_def no_fields_def canonical_eval)
  have k: "\<forall>k \<in> set (banks_of example_engine ?ds). ordinary_key example_engine k"
    unfolding b by (simp add: ordinary_key_def function_members_def th_krungsri_def)
  from bank_usage_ordinary_keys[OF p k]
  obtain r where r: "bankUsageData example_engine ?items = Inr r"
    by (elim exE conjE)
  have "bankUsageData example_engine ?items =
      Inr [\<lparr>name = th_krungsri, value' = Count 2\<rparr>, \<lparr>name = ''Bangkok Bank'', value' = Count 1\<rparr>]"
    by (simp add: bankUsageData_def paid_to_bank_def aggregate_eval canonical_eval)
  with r show ?thesis by simp
qed

text \<open>
  Claim C9 on the code, at a bank name that a plain object inherits. The claim has every
  record with a recipient bank name counted in the group of its canonical name. A record
  whose recipient bank name is \<^verbatim>\<open>__proto__\<close> has that name as canonical name and is in
  no group: \<^verbatim>\<open>bankMap\<close> is a plain object, the read of line 631 gives its prototype and
  the write is ignored. For the bank name \<^verbatim>\<open>constructor\<close> the group is there and its
  count is a text.
\<close>

theorem bank_usage_failing_input:
  "canonical_bank example_engine ''__proto__'' = ''__proto__'' \<and>
   bankUsageData example_engine [paid_to_bank ''img-1'' ''__proto__''] = Inr [] \<and>
   bankUsageData example_engine [paid_to_bank ''img-1'' ''constructor''] =
     Inr [\<lparr>name = ''constructor'', value' = Text ''function Object() { [native code] }1''\<rparr>]"
  by (simp add: bankUsageData_def paid_to_bank_def aggregate_eval canonical_eval)


section \<open>Recipient accounts: properties\<close>

text \<open>On ordinary account numbers the loop never throws and leaves the prototype alone.\<close>

lemma account_step_ordinary:
  assumes "truthy (recipientBankAccountNumber d) \<longrightarrow>
      inherited p (or_empty (recipientBankAccountNumber d)) = Missing"
  shows "account_step js \<lparr>stats_map = obj, proto_bankName = p\<rparr> d =
           Inr \<lparr>stats_map = ordinary_step js obj d, proto_bankName = p\<rparr>"
proof (cases "truthy (recipientBankAccountNumber d)")
  case False
  then show ?thesis
    by (simp add: account_step_def ordinary_step_def)
next
  case True
  with assms have m: "inherited p (or_empty (recipientBankAccountNumber d)) = Missing"
    by simp
  show ?thesis
  proof (cases "map_of obj (or_empty (recipientBankAccountNumber d))")
    case None
    with True m show ?thesis
      by (simp add: account_step_def ordinary_step_def Let_def)
  next
    case (Some entry)
    with True show ?thesis
      by (simp add: account_step_def ordinary_step_def Let_def)
  qed
qed

lemma forEach_account_ordinary:
  "\<forall>k \<in> set (accounts_of ds). inherited p k = Missing \<Longrightarrow>
     forEach_account js \<lparr>stats_map = obj, proto_bankName = p\<rparr> ds =
       Inr \<lparr>stats_map = foldl (ordinary_step js) obj ds, proto_bankName = p\<rparr>"
proof (induction ds arbitrary: obj)
  case Nil
  show ?case by simp
next
  case (Cons d ds)
  then have d: "truthy (recipientBankAccountNumber d) \<longrightarrow>
      inherited p (or_empty (recipientBankAccountNumber d)) = Missing"
    and rest: "\<forall>k \<in> set (accounts_of ds). inherited p k = Missing"
    by (simp_all add: accounts_of_def)
  show ?case
    by (simp add: account_step_ordinary[OF d] Cons.IH[OF rest])
qed

text \<open>The statistics that the loop of lines 579 to 597 holds for a group of records.\<close>

lemma ordinary_step_keys:
  "map fst (ordinary_step js obj d) =
     (if truthy (recipientBankAccountNumber d) \<and>
         or_empty (recipientBankAccountNumber d) \<notin> set (map fst obj)
      then map fst obj @ [or_empty (recipientBankAccountNumber d)] else map fst obj)"
  by (simp add: ordinary_step_def update_keys)

lemma foldl_ordinary_keys:
  "map fst (foldl (ordinary_step js) [] ds) = first_seen (accounts_of ds)"
proof (induction ds rule: rev_induct)
  case Nil
  show ?case by (simp add: first_seen_def accounts_of_def)
next
  case (snoc d ds)
  have "set (map fst (foldl (ordinary_step js) [] ds)) = set (accounts_of ds)"
    by (simp only: snoc.IH set_first_seen)
  then show ?case
    by (simp add: ordinary_step_keys first_seen_snoc snoc.IH accounts_of_def del: set_map)
qed

lemma for_account_snoc:
  "for_account k (ds @ [d]) =
     for_account k ds @
     (if truthy (recipientBankAccountNumber d) \<and> or_empty (recipientBankAccountNumber d) = k
      then [d] else [])"
  by (simp add: for_account_def)

lemma map_of_ordinary_step:
  "map_of (ordinary_step js obj d) k =
     (if truthy (recipientBankAccountNumber d) \<and> or_empty (recipientBankAccountNumber d) = k
      then
        Some (case map_of obj k of
                None \<Rightarrow>
                  \<lparr>stat_count = 1, stat_totalAmount = number_add js 0 (or_zero (parsedAmount d)),
                   stat_bankName = or_empty (recipientBankName d)\<rparr>
              | Some s \<Rightarrow>
                  \<lparr>stat_count = stat_count s + 1,
                   stat_totalAmount = number_add js (stat_totalAmount s) (or_zero (parsedAmount d)),
                   stat_bankName =
                     (if stat_bankName s = [] then or_empty (recipientBankName d)
                      else stat_bankName s)\<rparr>)
      else map_of obj k)"
  by (auto simp: ordinary_step_def add_transfer_def Let_def update_conv' split: option.splits)

lemma total_snoc: "total js (xs @ [x]) = number_add js (total js xs) x"
  by (simp add: total_def)

lemma amounts_snoc: "amounts (rs @ [d]) = amounts rs @ [or_zero (parsedAmount d)]"
  by (simp add: amounts_def)

lemma first_of_bank_names_snoc:
  "(case bank_names (rs @ [d]) of [] \<Rightarrow> [] | b # _ \<Rightarrow> b) =
     (if (case bank_names rs of [] \<Rightarrow> [] | b # _ \<Rightarrow> b) = [] then or_empty (recipientBankName d)
      else (case bank_names rs of [] \<Rightarrow> [] | b # _ \<Rightarrow> b))"
proof (cases "bank_names rs")
  case Nil
  then show ?thesis by (simp add: bank_names_def)
next
  case (Cons b bs)
  then have "b \<in> set (bank_names rs)" by simp
  then have "b \<noteq> []" by (simp add: bank_names_def)
  with Cons show ?thesis by (simp add: bank_names_def)
qed

lemma foldl_ordinary_stats:
  "map_of (foldl (ordinary_step js) [] ds) k =
     (if for_account k ds = [] then None
      else Some \<lparr>stat_count = length (for_account k ds),
                 stat_totalAmount = total js (amounts (for_account k ds)),
                 stat_bankName = (case bank_names (for_account k ds) of [] \<Rightarrow> [] | b # _ \<Rightarrow> b)\<rparr>)"
proof (induction ds rule: rev_induct)
  case Nil
  show ?case by (simp add: for_account_def)
next
  case (snoc d ds)
  let ?obj = "foldl (ordinary_step js) [] ds"
  let ?rs = "for_account k ds"
  have step: "map_of (foldl (ordinary_step js) [] (ds @ [d])) k = map_of (ordinary_step js ?obj d) k"
    by simp
  show ?case
  proof (cases "truthy (recipientBankAccountNumber d) \<and> or_empty (recipientBankAccountNumber d) = k")
    case False
    then have "for_account k (ds @ [d]) = ?rs"
      by (simp add: for_account_snoc)
    moreover from False have "map_of (ordinary_step js ?obj d) k = map_of ?obj k"
      by (auto simp: map_of_ordinary_step)
    ultimately show ?thesis
      using snoc.IH step by simp
  next
    case True
    then have rs': "for_account k (ds @ [d]) = ?rs @ [d]"
      by (simp add: for_account_snoc)
    show ?thesis
    proof (cases "?rs = []")
      case empty: True
      then have "map_of ?obj k = None"
        using snoc.IH by simp
      then have "map_of (ordinary_step js ?obj d) k =
          Some \<lparr>stat_count = 1, stat_totalAmount = number_add js 0 (or_zero (parsedAmount d)),
                stat_bankName = or_empty (recipientBankName d)\<rparr>"
        using True by (simp add: map_of_ordinary_step)
      moreover have "bank_names ?rs = []"
        using empty by (simp add: bank_names_def)
      ultimately show ?thesis
        unfolding step rs' amounts_snoc total_snoc first_of_bank_names_snoc
        using empty by (simp add: amounts_def total_def)
    next
      case False
      then have "map_of ?obj k =
          Some \<lparr>stat_count = length ?rs, stat_totalAmount = total js (amounts ?rs),
                stat_bankName = (case bank_names ?rs of [] \<Rightarrow> [] | b # _ \<Rightarrow> b)\<rparr>"
        using snoc.IH by simp
      then have "map_of (ordinary_step js ?obj d) k =
          Some \<lparr>stat_count = length ?rs + 1,
                stat_totalAmount = number_add js (total js (amounts ?rs)) (or_zero (parsedAmount d)),
                stat_bankName =
                  (if (case bank_names ?rs of [] \<Rightarrow> [] | b # _ \<Rightarrow> b) = []
                   then or_empty (recipientBankName d)
                   else (case bank_names ?rs of [] \<Rightarrow> [] | b # _ \<Rightarrow> b))\<rparr>"
        using True by (simp add: map_of_ordinary_step)
      then show ?thesis
        unfolding step rs' amounts_snoc total_snoc first_of_bank_names_snoc by simp
    qed
  qed
qed

lemma for_account_nonempty: "k \<in> set (accounts_of ds) \<Longrightarrow> for_account k ds \<noteq> []"
  by (auto simp: accounts_of_def for_account_def filter_empty_conv)

lemma first_bank_name_alt:
  "first_bank_name rs =
     (if (case bank_names rs of [] \<Rightarrow> [] | b # _ \<Rightarrow> b) = [] then ''-''
      else (case bank_names rs of [] \<Rightarrow> [] | b # _ \<Rightarrow> b))"
proof (cases "bank_names rs")
  case Nil
  then show ?thesis by (simp add: first_bank_name_def)
next
  case (Cons b bs)
  then have "b \<in> set (bank_names rs)" by simp
  then have "b \<noteq> []" by (simp add: bank_names_def)
  with Cons show ?thesis by (simp add: first_bank_name_def)
qed

lemma account_entry_eq:
  assumes "k \<in> set (accounts_of ds)"
  shows "account_entry (foldl (ordinary_step js) [] ds) k =
           \<lparr>accountNumber = k, transactionCount = length (for_account k ds),
            totalAmountTransferred = total js (amounts (for_account k ds)),
            bankName = first_bank_name (for_account k ds)\<rparr>"
  using for_account_nonempty[OF assms]
  by (simp add: account_entry_def foldl_ordinary_stats first_bank_name_alt)

lemma topRecipientAccountsData_eq:
  assumes "map data items = map Some ds" and "\<forall>k \<in> set (accounts_of ds). ordinary_key js k"
  shows "topRecipientAccountsData js items =
           Inr (take 5 (sort_desc transactionCount
                  (map (\<lambda>k. \<lparr>accountNumber = k, transactionCount = length (for_account k ds),
                              totalAmountTransferred = total js (amounts (for_account k ds)),
                              bankName = first_bank_name (for_account k ds)\<rparr>)
                     (key_order (first_seen (accounts_of ds))))))"
proof -
  have eq: "map (account_entry (foldl (ordinary_step js) [] ds)) (key_order (first_seen (accounts_of ds))) =
      map (\<lambda>k. \<lparr>accountNumber = k, transactionCount = length (for_account k ds),
                 totalAmountTransferred = total js (amounts (for_account k ds)),
                 bankName = first_bank_name (for_account k ds)\<rparr>)
        (key_order (first_seen (accounts_of ds)))"
    by (rule map_cong) (simp_all add: set_key_order set_first_seen account_entry_eq)
  have "\<forall>k \<in> set (accounts_of ds). inherited (inherited_bankName js) k = Missing"
    using assms(2) by (simp add: inherited_ordinary)
  from forEach_account_ordinary[OF this, of js "[]"]
  have loop: "forEach_account js \<lparr>stats_map = [], proto_bankName = inherited_bankName js\<rparr> ds =
      Inr \<lparr>stats_map = foldl (ordinary_step js) [] ds, proto_bankName = inherited_bankName js\<rparr>" .
  show ?thesis
    unfolding topRecipientAccountsData_def payloads_Some[OF assms(1)] sum.case loop Let_def
      account_loop.select_convs Object_keys_def foldl_ordinary_keys
    by (simp only: eq)
qed

lemma sorted_wrt_take_drop:
  assumes "sorted_wrt P xs" and "x \<in> set (take n xs)" and "y \<in> set (drop n xs)"
  shows "P x y"
proof -
  have "sorted_wrt P (take n xs @ drop n xs)"
    using assms(1) by simp
  with assms(2,3) show ?thesis
    unfolding sorted_wrt_append by blast
qed

lemma in_take_or_drop: "x \<in> set xs \<Longrightarrow> x \<in> set (take n xs) \<or> x \<in> set (drop n xs)"
  by (metis Un_iff append_take_drop_id set_append)


text \<open>
  The top recipient accounts on ordinary keys. For results that all have a payload and
  whose recipient account numbers are ordinary keys, the list has at most five entries,
  largest transaction count first, with distinct account numbers. Each entry is the
  group of an account number held by some record: its count is the number of records
  with that account number, its total their parsed amounts (a missing or NaN amount
  counts as 0) added up in the order of the records by the addition of the engine, its
  bank name the first recipient bank name among them that is not empty, or \<open>-\<close> when
  there is none. An account that is left out is left out because five are listed, none
  with a smaller count.
\<close>

lemma top_recipient_accounts_ordinary_keys:
  assumes "map data items = map Some ds" and "\<forall>k \<in> set (accounts_of ds). ordinary_key js k"
  shows "\<exists>r. topRecipientAccountsData js items = Inr r \<and>
           length r \<le> 5 \<and>
           sorted_wrt (\<lambda>a b. transactionCount b \<le> transactionCount a) r \<and>
           distinct (map accountNumber r) \<and>
           (\<forall>e \<in> set r.
              accountNumber e \<in> set (accounts_of ds) \<and>
              transactionCount e = length (for_account (accountNumber e) ds) \<and>
              totalAmountTransferred e = total js (amounts (for_account (accountNumber e) ds)) \<and>
              bankName e = first_bank_name (for_account (accountNumber e) ds)) \<and>
           (\<forall>k \<in> set (accounts_of ds).
              k \<in> set (map accountNumber r) \<or>
              (length r = 5 \<and> (\<forall>e \<in> set r. length (for_account k ds) \<le> transactionCount e)))"
proof -
  let ?mk = "\<lambda>k. \<lparr>accountNumber = k, transactionCount = length (for_account k ds),
                   totalAmountTransferred = total js (amounts (for_account k ds)),
                   bankName = first_bank_name (for_account k ds)\<rparr>"
  let ?keys = "key_order (first_seen (accounts_of ds))"
  let ?full = "sort_desc transactionCount (map ?mk ?keys)"
  let ?r = "take 5 ?full"
  have r: "topRecipientAccountsData js items = Inr ?r"
    by (rule topRecipientAccountsData_eq[OF assms])
  have len: "length ?r \<le> 5" by simp
  have sorted_full: "sorted_wrt (\<lambda>a b. transactionCount b \<le> transactionCount a) ?full"
    by (rule sorted_sort_desc)
  have o: "sorted_wrt (\<lambda>a b. transactionCount b \<le> transactionCount a) ?r"
    using sorted_full by (rule sorted_wrt_take)
  have names: "map accountNumber (map ?mk ks) = ks" for ks
    by (simp add: comp_def)
  have "distinct (map accountNumber ?full)"
    by (simp only: distinct_map_sort_desc names distinct_key_order distinct_first_seen)
  then have d: "distinct (map accountNumber ?r)"
    by (simp add: take_map[symmetric])
  have set_full: "set ?full = ?mk ` set (accounts_of ds)"
    by (simp add: set_sort_desc set_key_order set_first_seen)
  have sub: "set ?r \<subseteq> set ?full" by (rule set_take_subset)
  have c: "\<forall>e \<in> set ?r.
      accountNumber e \<in> set (accounts_of ds) \<and>
      transactionCount e = length (for_account (accountNumber e) ds) \<and>
      totalAmountTransferred e = total js (amounts (for_account (accountNumber e) ds)) \<and>
      bankName e = first_bank_name (for_account (accountNumber e) ds)"
  proof
    fix e assume "e \<in> set ?r"
    with sub set_full obtain k where "k \<in> set (accounts_of ds)" "e = ?mk k" by blast
    then show "accountNumber e \<in> set (accounts_of ds) \<and>
      transactionCount e = length (for_account (accountNumber e) ds) \<and>
      totalAmountTransferred e = total js (amounts (for_account (accountNumber e) ds)) \<and>
      bankName e = first_bank_name (for_account (accountNumber e) ds)"
      by simp
  qed
  have t: "\<forall>k \<in> set (accounts_of ds).
      k \<in> set (map accountNumber ?r) \<or>
      (length ?r = 5 \<and> (\<forall>e \<in> set ?r. length (for_account k ds) \<le> transactionCount e))"
  proof
    fix k assume k: "k \<in> set (accounts_of ds)"
    then have "?mk k \<in> set ?full" using set_full by blast
    then have "?mk k \<in> set ?r \<or> ?mk k \<in> set (drop 5 ?full)"
      by (rule in_take_or_drop)
    then show "k \<in> set (map accountNumber ?r) \<or>
      (length ?r = 5 \<and> (\<forall>e \<in> set ?r. length (for_account k ds) \<le> transactionCount e))"
    proof
      assume "?mk k \<in> set ?r"
      then have "accountNumber (?mk k) \<in> set (map accountNumber ?r)"
        by (simp only: set_map image_eqI)
      then show ?thesis by simp
    next
      assume late: "?mk k \<in> set (drop 5 ?full)"
      then have "drop 5 ?full \<noteq> []" by auto
      then have "5 < length ?full" by simp
      then have "length ?r = 5" by simp
      moreover have "\<forall>e \<in> set ?r. transactionCount (?mk k) \<le> transactionCount e"
        using sorted_wrt_take_drop[OF sorted_full _ late] by blast
      ultimately show ?thesis by simp
    qed
  qed
  from r len o d c t show ?thesis by blast
qed

text \<open>The definitions that evaluate the list of top recipient accounts on a concrete input.\<close>

lemmas account_eval =
  topRecipientAccountsData_def paid_to_account_def account_step_def add_transfer_def
  account_entry_def or_zero_def Let_def

text \<open>
  Three results for two accounts: the account met twice comes first with the sum of its
  amounts and the bank name of its second record, the first being empty.
\<close>

lemma top_recipient_accounts_example:
  "topRecipientAccountsData example_engine
     [paid_to_account ''img-1'' ''222'' [] 10,
      paid_to_account ''img-2'' ''111'' ''SCB'' 5,
      paid_to_account ''img-3'' ''222'' ''KBank'' 2.5] =
   Inr [\<lparr>accountNumber = ''222'', transactionCount = 2, totalAmountTransferred = 12.5,
         bankName = ''KBank''\<rparr>,
        \<lparr>accountNumber = ''111'', transactionCount = 1, totalAmountTransferred = 5,
         bankName = ''SCB''\<rparr>]"
proof -
  let ?items = "[paid_to_account ''img-1'' ''222'' [] 10,
      paid_to_account ''img-2'' ''111'' ''SCB'' 5,
      paid_to_account ''img-3'' ''222'' ''KBank'' 2.5]"
  let ?ds = "[no_fields\<lparr>recipientBankAccountNumber := Some ''222'', recipientBankName := Some [],
                        parsedAmount := Some (Num 10)\<rparr>,
              no_fields\<lparr>recipientBankAccountNumber := Some ''111'', recipientBankName := Some ''SCB'',
                        parsedAmount := Some (Num 5)\<rparr>,
              no_fields\<lparr>recipientBankAccountNumber := Some ''222'', recipientBankName := Some ''KBank'',
                        parsedAmount := Some (Num 2.5)\<rparr>]"
  have p: "map data ?items = map Some ?ds"
    by (simp add: paid_to_account_def example_item_def)
  have k: "\<forall>k \<in> set (accounts_of ?ds). ordinary_key example_engine k"
    by (simp add: accounts_of_def truthy_def or_empty_def no_fields_def ordinary_key_def
        function_members_def)
  from top_recipient_accounts_ordinary_keys[OF p k]
  obtain r where r: "topRecipientAccountsData example_engine ?items = Inr r"
    by (elim exE conjE)
  have "topRecipientAccountsData example_engine ?items =
      Inr [\<lparr>accountNumber = ''222'', transactionCount = 2, totalAmountTransferred = 12.5,
            bankName = ''KBank''\<rparr>,
           \<lparr>accountNumber = ''111'', transactionCount = 1, totalAmountTransferred = 5,
            bankName = ''SCB''\<rparr>]"
    by (simp add: account_eval aggregate_eval)
  with r show ?thesis by simp
qed

text \<open>
  Claim C6 on the code, at an account number that a plain object inherits. The claim has
  every record with a recipient account number in the group of that number. A record
  whose recipient account number is \<^verbatim>\<open>constructor\<close> or \<^verbatim>\<open>__proto__\<close> is in no group:
  \<^verbatim>\<open>accountStatsMap\<close> is a plain object, the test of line 587 reads what it inherits
  under that name, and no entry is made. The list is empty although fewer than five
  accounts are listed.
\<close>

theorem top_recipient_accounts_failing_input:
  "topRecipientAccountsData example_engine [paid_to_account ''img-1'' ''constructor'' ''SCB'' 10] =
     Inr [] \<and>
   topRecipientAccountsData example_engine [paid_to_account ''img-1'' ''__proto__'' ''SCB'' 10] =
     Inr []"
  by (simp add: account_eval aggregate_eval)

end
